theory Spec2Isabelle
  imports Main "HOL-Library.Sublist" "HOL-Library.AList"
begin

section \<open>Python values, strings and errors\<close>

text \<open>
  The program is Python. Every \<^verbatim>\<open>raise\<close> of the source, and every exception a
  built-in operation of the source can throw (a missing dictionary key, an index out of
  range, an attribute that does not exist), is a value of \<open>py_error\<close>; a function that
  can raise returns \<open>py_error + 'a\<close>, with \<open>Inl\<close> for the exception.
  A \<open>ValueError\<close> carries its message.

  A Python \<^verbatim>\<open>str\<close> is a \<open>string\<close>. The separators and needles the source uses
  (\<^verbatim>\<open>/ ? & id id= \n\<close> and the two domain names) are ASCII, so splitting, searching
  and replacing behave on the UTF-8 bytes of a text as they do on its code points.
\<close>

datatype py_error =
    PreventUpdate
  | ValueError string
  | IndexError
  | KeyError string
  | TypeError
  | AttributeError string

text \<open>
  \<^verbatim>\<open>s.replace(old, new)\<close>: scanning from the left, every non-overlapping occurrence of
  \<open>old\<close> is replaced; an empty \<open>old\<close> matches before every character and at the end.
\<close>

fun py_replace :: "string \<Rightarrow> string \<Rightarrow> string \<Rightarrow> string" where
  "py_replace old new [] = (if old = [] then new else [])"
| "py_replace old new (c # cs) =
     (if old = [] then new @ c # py_replace old new cs
      else if prefix old (c # cs) then new @ py_replace old new (drop (length old) (c # cs))
      else c # py_replace old new cs)"

text \<open>
  \<^verbatim>\<open>s.split(sep)\<close> for a one-character separator: the pieces between the separators,
  empty pieces included; the result is never the empty list.
\<close>

fun py_split :: "char \<Rightarrow> string \<Rightarrow> string list" where
  "py_split sep [] = [[]]"
| "py_split sep (c # cs) =
     (if c = sep then [] # py_split sep cs
      else (case py_split sep cs of [] \<Rightarrow> [[c]] | w # ws \<Rightarrow> (c # w) # ws))"

text \<open>\<^verbatim>\<open>xs[i]\<close>: a negative index counts from the end; out of range raises.\<close>

definition py_index :: "'a list \<Rightarrow> int \<Rightarrow> py_error + 'a" where
  "py_index xs i =
     (if 0 \<le> i \<and> i < int (length xs) then Inr (xs ! nat i)
      else if i < 0 \<and> - int (length xs) \<le> i then Inr (xs ! nat (int (length xs) + i))
      else Inl IndexError)"

section \<open>Identifier extraction (scraper.py)\<close>

text \<open>
  \<^verbatim>\<open>return url.split("/")[-1].replace("id", ""), url.split("/")[-2]\<close>
  The tuple is built left to right: the last piece first, then the piece before it.
\<close>

definition get_app_id_name_from_appstore_url :: "string \<Rightarrow> py_error + (string \<times> string)" where
  "get_app_id_name_from_appstore_url url =
     (case py_index (py_split CHR ''/'' url) (- 1) of
        Inl e \<Rightarrow> Inl e
      | Inr seg \<Rightarrow>
          (case py_index (py_split CHR ''/'' url) (- 2) of
             Inl e \<Rightarrow> Inl e
           | Inr name \<Rightarrow> Inr (py_replace ''id'' '''' seg, name)))"

text \<open>
  \<^verbatim>\<open>return url.split("/")[-1].split("?")[-1].split("&")[0].replace("id=", "")\<close>
\<close>

definition get_app_id_from_playstore_url :: "string \<Rightarrow> py_error + string" where
  "get_app_id_from_playstore_url url =
     (case py_index (py_split CHR ''/'' url) (- 1) of
        Inl e \<Rightarrow> Inl e
      | Inr seg \<Rightarrow>
          (case py_index (py_split CHR ''?'' seg) (- 1) of
             Inl e \<Rightarrow> Inl e
           | Inr query \<Rightarrow>
               (case py_index (py_split CHR ''&'' query) 0 of
                  Inl e \<Rightarrow> Inl e
                | Inr param \<Rightarrow> Inr (py_replace ''id='' '''' param))))"

subsection \<open>The words of the specification, for comparison\<close>

text \<open>
  The text after the last \<open>/\<close> of a URL, the URL before that \<open>/\<close>, and the removal of
  a leading prefix (Python's \<^verbatim>\<open>removeprefix\<close>), which is what "a literal id prefix
  stripped, nothing else altered" describes.
\<close>

definition last_segment :: "string \<Rightarrow> string" where
  "last_segment url = rev (takeWhile (\<lambda>c. c \<noteq> CHR ''/'') (rev url))"

definition before_last_slash :: "string \<Rightarrow> string" where
  "before_last_slash url = take (length url - length (last_segment url) - 1) url"

definition removeprefix :: "string \<Rightarrow> string \<Rightarrow> string" where
  "removeprefix p s = (if prefix p s then drop (length p) s else s)"


section \<open>Review records\<close>

text \<open>
  A raw review is a Python \<^verbatim>\<open>dict\<close> from field names to values. A dictionary is an
  association list with distinct keys in insertion order: \<open>map_of\<close> looks a key up,
  \<open>AList.update\<close> is the assignment \<^verbatim>\<open>d[k] = v\<close> (in place for a key that exists, at
  the end for a new one). The values are those the two review services deliver: \<^verbatim>\<open>None\<close>,
  booleans, integers, texts, \<^verbatim>\<open>datetime\<close> objects and nested dictionaries.
\<close>

record datetime =
  dt_year :: nat
  dt_month :: nat
  dt_day :: nat
  dt_hour :: nat
  dt_minute :: nat
  dt_second :: nat
  dt_microsecond :: nat

datatype pyval =
    PNone
  | PBool bool
  | PInt int
  | PStr string
  | PDatetime datetime
  | PDict "(string \<times> pyval) list"

type_synonym raw_review = "(string \<times> pyval) list"

definition dict_getitem :: "(string \<times> 'v) list \<Rightarrow> string \<Rightarrow> py_error + 'v" where
  "dict_getitem d k = (case map_of d k of None \<Rightarrow> Inl (KeyError k) | Some v \<Rightarrow> Inr v)"

text \<open>\<^verbatim>\<open>x[k]\<close> on a value: only a dictionary can be subscripted by a field name.\<close>

definition py_getitem :: "pyval \<Rightarrow> string \<Rightarrow> py_error + pyval" where
  "py_getitem x k = (case x of PDict d \<Rightarrow> dict_getitem d k | _ \<Rightarrow> Inl TypeError)"

text \<open>
  \<^verbatim>\<open>a + b\<close>: concatenation of two texts, addition of two numbers (a boolean counts as
  0 or 1), \<open>TypeError\<close> otherwise.
\<close>

definition py_add :: "pyval \<Rightarrow> pyval \<Rightarrow> py_error + pyval" where
  "py_add a b =
     (case (a, b) of
        (PStr s, PStr t) \<Rightarrow> Inr (PStr (s @ t))
      | (PInt i, PInt j) \<Rightarrow> Inr (PInt (i + j))
      | (PInt i, PBool c) \<Rightarrow> Inr (PInt (i + of_bool c))
      | (PBool c, PInt j) \<Rightarrow> Inr (PInt (of_bool c + j))
      | (PBool c, PBool d) \<Rightarrow> Inr (PInt (of_bool c + of_bool d))
      | _ \<Rightarrow> Inl TypeError)"

subsection \<open>Dates and numbers as text\<close>

definition digit_char :: "nat \<Rightarrow> char" where
  "digit_char n = ''0123456789'' ! (n mod 10)"

fun decimal :: "nat \<Rightarrow> string" where
  "decimal n = (if n < 10 then [digit_char n] else decimal (n div 10) @ [digit_char (n mod 10)])"

declare decimal.simps [simp del]

definition zfill :: "nat \<Rightarrow> string \<Rightarrow> string" where
  "zfill width s = replicate (width - length s) CHR ''0'' @ s"

text \<open>
  \<^verbatim>\<open>value.strftime("%d/%m/%Y")\<close>. The interpreter hands the format to the C library:
  \<^verbatim>\<open>%d\<close> and \<^verbatim>\<open>%m\<close> are padded with a zero to two digits, \<^verbatim>\<open>%Y\<close> is the year as a
  decimal number with no padding (\<^verbatim>\<open>datetime(5, 1, 2)\<close> gives \<^verbatim>\<open>02/01/5\<close>), so the year
  has four digits only from the year 1000 on.
\<close>

definition strftime_dmY :: "datetime \<Rightarrow> string" where
  "strftime_dmY d =
     zfill 2 (decimal (dt_day d)) @ ''/'' @ zfill 2 (decimal (dt_month d)) @ ''/''
       @ decimal (dt_year d)"

text \<open>The fields of a \<^verbatim>\<open>datetime\<close> object are in range by construction.\<close>

definition valid_datetime :: "datetime \<Rightarrow> bool" where
  "valid_datetime d \<longleftrightarrow>
     1 \<le> dt_year d \<and> dt_year d \<le> 9999 \<and> 1 \<le> dt_month d \<and> dt_month d \<le> 12 \<and>
     1 \<le> dt_day d \<and> dt_day d \<le> 31 \<and> dt_hour d < 24 \<and> dt_minute d < 60 \<and>
     dt_second d < 60 \<and> dt_microsecond d < 1000000"

text \<open>\<^verbatim>\<open>str(i)\<close> for an integer.\<close>

definition py_str_int :: "int \<Rightarrow> string" where
  "py_str_int i = (if i < 0 then CHR ''-'' # decimal (nat (- i)) else decimal (nat i))"

section \<open>NumPy arrays\<close>

text \<open>
  The formatting functions return \<^verbatim>\<open>numpy\<close> arrays. An array has one element type
  for all its cells: a list of texts and numbers becomes an array of texts, each number
  stored as its \<^verbatim>\<open>str\<close>; only when some cell is an object NumPy has no element type
  for (\<^verbatim>\<open>None\<close>, a \<^verbatim>\<open>datetime\<close>, a dictionary, an integer beyond 64 bits) does the
  array keep the Python objects as they are (element type \<^verbatim>\<open>object\<close>). An array built
  from no cells at all has element type \<^verbatim>\<open>float64\<close>. A text array is fixed-width and
  padded with NUL characters, so a text read back from it has lost trailing NULs.
  Arrays of numbers only do not arise in this program (the two date columns always
  hold texts); they are kept as the numbers they were built from.
\<close>

datatype np_dtype = Unicode | Object | Float64 | Numeric

record ndarray =
  dtype :: np_dtype
  shape :: "nat list"
  rows :: "pyval list list"

definition np_text_or_number :: "pyval \<Rightarrow> bool" where
  "np_text_or_number v =
     (case v of PStr s \<Rightarrow> True | PBool b \<Rightarrow> True
      | PInt i \<Rightarrow> - (2 ^ 63) \<le> i \<and> i < 2 ^ 64 | _ \<Rightarrow> False)"

definition is_str :: "pyval \<Rightarrow> bool" where
  "is_str v = (case v of PStr s \<Rightarrow> True | _ \<Rightarrow> False)"

definition np_result_dtype :: "pyval list \<Rightarrow> np_dtype" where
  "np_result_dtype leaves =
     (if leaves = [] then Float64
      else if \<not> list_all np_text_or_number leaves then Object
      else if list_ex is_str leaves then Unicode
      else Numeric)"

definition rstrip_nul :: "string \<Rightarrow> string" where
  "rstrip_nul s = rev (dropWhile (\<lambda>c. c = CHR 0x00) (rev s))"

text \<open>The value read back from a cell of an array of the given element type.\<close>

definition np_item :: "np_dtype \<Rightarrow> pyval \<Rightarrow> pyval" where
  "np_item t v =
     (if t = Unicode then
        (case v of
           PStr s \<Rightarrow> PStr (rstrip_nul s)
         | PInt i \<Rightarrow> PStr (py_str_int i)
         | PBool b \<Rightarrow> PStr (if b then ''True'' else ''False'')
         | _ \<Rightarrow> v)
      else v)"

text \<open>
  \<^verbatim>\<open>np.array(xss)\<close> for a list of lists. Lists of different lengths are refused
  (\<open>ValueError\<close>); the empty list gives a one-dimensional empty array.
\<close>

definition np_array :: "pyval list list \<Rightarrow> py_error + ndarray" where
  "np_array xss =
     (case xss of
        [] \<Rightarrow> Inr \<lparr>dtype = Float64, shape = [0], rows = []\<rparr>
      | xs # yss \<Rightarrow>
          if list_ex (\<lambda>ys. length ys \<noteq> length xs) yss
          then Inl (ValueError ''inhomogeneous shape'')
          else Inr \<lparr>dtype = np_result_dtype (concat xss),
                    shape = [length xss, length xs],
                    rows = map (map (np_item (np_result_dtype (concat xss)))) xss\<rparr>)"

text \<open>\<^verbatim>\<open>a.T\<close>: the transpose of a two-dimensional array; any other array is unchanged.\<close>

definition np_T :: "ndarray \<Rightarrow> ndarray" where
  "np_T a =
     (case shape a of
        [m, n] \<Rightarrow> a\<lparr>shape := [n, m], rows := map (\<lambda>j. map (\<lambda>r. r ! j) (rows a)) [0..<n]\<rparr>
      | _ \<Rightarrow> a)"

definition np_promote :: "np_dtype \<Rightarrow> np_dtype \<Rightarrow> np_dtype" where
  "np_promote s t =
     (if s = Object \<or> t = Object then Object
      else if s = Unicode \<or> t = Unicode then Unicode
      else if s = Numeric \<or> t = Numeric then Numeric
      else Float64)"

text \<open>A cell converted from one element type to another; no conversion between equal types.\<close>

definition np_cast :: "np_dtype \<Rightarrow> np_dtype \<Rightarrow> pyval \<Rightarrow> pyval" where
  "np_cast s t v = (if s = t then v else np_item t v)"

text \<open>
  \<^verbatim>\<open>np.concatenate([a, b])\<close>: the rows of \<open>a\<close>, then those of \<open>b\<close>, in the common
  element type. The arrays must have the same number of dimensions and, past the first,
  the same extents.
\<close>

definition np_concatenate :: "ndarray \<Rightarrow> ndarray \<Rightarrow> py_error + ndarray" where
  "np_concatenate a b =
     (if length (shape a) \<noteq> length (shape b) \<or> tl (shape a) \<noteq> tl (shape b)
      then Inl (ValueError ''array dimensions must match'')
      else Inr \<lparr>dtype = np_promote (dtype a) (dtype b),
                shape = (hd (shape a) + hd (shape b)) # tl (shape a),
                rows = map (map (np_cast (dtype a) (np_promote (dtype a) (dtype b)))) (rows a)
                     @ map (map (np_cast (dtype b) (np_promote (dtype a) (dtype b)))) (rows b)\<rparr>)"


section \<open>Fetching (scraper.py)\<close>

text \<open>
  The Play Store service is outside the program: a call may return anything, and the
  same request need not give the same answer twice. It is a parameter: from the state
  \<open>w\<close> of the outside world and a request it gives the page, the continuation token
  and the next state of the world. The request carries what \<^verbatim>\<open>reviews(...)\<close> is
  called with (the sort order and the score filter are constants of the source).
\<close>

record 'tok page_request =
  req_app_id :: string
  req_continuation_token :: "'tok option"
  req_lang :: string
  req_country :: string
  req_count :: nat

type_synonym ('w, 'tok, 'r) reviews_service =
  "'w \<Rightarrow> 'tok page_request \<Rightarrow> ('r list \<times> 'tok option) \<times> 'w"

definition playstore_request :: "string \<Rightarrow> string \<Rightarrow> string \<Rightarrow> 'tok option \<Rightarrow> 'tok page_request" where
  "playstore_request a_id lng ctry tok =
     \<lparr>req_app_id = a_id, req_continuation_token = tok, req_lang = lng, req_country = ctry,
      req_count = 150\<rparr>"

function retrieve_loop ::
  "('w, 'tok, 'r) reviews_service \<Rightarrow> string \<Rightarrow> string \<Rightarrow> string \<Rightarrow> int \<Rightarrow>
     'r list \<Rightarrow> 'tok option \<Rightarrow> 'w \<Rightarrow> 'r list" where
  "retrieve_loop reviews a_id lng ctry how_many result tok w =
     (if int (length result) < how_many then
        (case reviews w (playstore_request a_id lng ctry tok) of
           ((new_result, tok'), w') \<Rightarrow>
             if new_result = [] then result
             else retrieve_loop reviews a_id lng ctry how_many (result @ new_result) tok' w')
      else result)"
  by pat_completeness auto
termination
  by (relation "measure (\<lambda>(reviews, a_id, lng, ctry, how_many, result, tok, w).
        nat (how_many - int (length result)))") auto

declare retrieve_loop.simps [simp del]

definition retrieve_playstore_reviews ::
  "('w, 'tok, 'r) reviews_service \<Rightarrow> 'w \<Rightarrow> string \<Rightarrow> string \<Rightarrow> string \<Rightarrow> int \<Rightarrow> 'r list" where
  "retrieve_playstore_reviews reviews w a_id lng ctry how_many =
     retrieve_loop reviews a_id lng ctry how_many [] None w"

fun service_state ::
  "('w, 'tok, 'r) reviews_service \<Rightarrow> ('tok option \<Rightarrow> 'tok page_request) \<Rightarrow> 'w \<Rightarrow> nat \<Rightarrow>
     'tok option \<times> 'w" where
  "service_state reviews req w 0 = (None, w)"
| "service_state reviews req w (Suc k) =
     (case service_state reviews req w k of
        (tok, w') \<Rightarrow> (case reviews w' (req tok) of ((new_result, tok'), w'') \<Rightarrow> (tok', w'')))"

definition nth_page ::
  "('w, 'tok, 'r) reviews_service \<Rightarrow> ('tok option \<Rightarrow> 'tok page_request) \<Rightarrow> 'w \<Rightarrow> nat \<Rightarrow> 'r list" where
  "nth_page reviews req w k =
     (case service_state reviews req w k of (tok, w') \<Rightarrow> fst (fst (reviews w' (req tok))))"

definition pages_upto ::
  "('w, 'tok, 'r) reviews_service \<Rightarrow> ('tok option \<Rightarrow> 'tok page_request) \<Rightarrow> 'w \<Rightarrow> nat \<Rightarrow> 'r list" where
  "pages_upto reviews req w n = concat (map (nth_page reviews req w) [0..<n])"


text \<open>
  The App Store service, a parameter as well: for a country, an app name, an app id and a
  requested number it gives the list \<^verbatim>\<open>app_store.reviews\<close> as it stands after
  \<^verbatim>\<open>app_store.review(how_many=how_many)\<close>.
\<close>

type_synonym appstore_service = "string \<Rightarrow> string \<Rightarrow> string \<Rightarrow> int \<Rightarrow> raw_review list"

text \<open>\<^verbatim>\<open>xs[:n]\<close>: a negative bound counts from the end.\<close>

definition py_slice_to :: "'a list \<Rightarrow> int \<Rightarrow> 'a list" where
  "py_slice_to xs n = (if 0 \<le> n then take (nat n) xs else take (nat (int (length xs) + n)) xs)"

definition retrieve_appstore_reviews ::
  "appstore_service \<Rightarrow> string \<Rightarrow> string \<Rightarrow> string \<Rightarrow> int \<Rightarrow> raw_review list" where
  "retrieve_appstore_reviews service a_name a_id ctry how_many =
     py_slice_to (service ctry a_name a_id how_many) how_many"

section \<open>Normalisation (scraper.py)\<close>

text \<open>
  \<^verbatim>\<open>rev[rev_key].replace("\n", "") if isinstance(rev[rev_key], str) else rev[rev_key]\<close>
\<close>

definition strip_newlines :: "pyval \<Rightarrow> pyval" where
  "strip_newlines v = (case v of PStr s \<Rightarrow> PStr (py_replace [CHR 0x0A] [] s) | _ \<Rightarrow> v)"

text \<open>
  The inner loop of \<^verbatim>\<open>_format_generic\<close>, over the paired column names:
  \<^verbatim>\<open>dataset[dataset_key].append(...)\<close>. The column is looked up first, then the field.
\<close>

fun project_fields ::
  "raw_review \<Rightarrow> (string \<times> string) list \<Rightarrow> (string \<times> pyval list) list \<Rightarrow>
     py_error + (string \<times> pyval list) list" where
  "project_fields rv [] dataset = Inr dataset"
| "project_fields rv ((rev_key, dataset_key) # pairs) dataset =
     (case dict_getitem dataset dataset_key of
        Inl e \<Rightarrow> Inl e
      | Inr col \<Rightarrow>
          (case dict_getitem rv rev_key of
             Inl e \<Rightarrow> Inl e
           | Inr v \<Rightarrow>
               project_fields rv pairs
                 (AList.update dataset_key (col @ [strip_newlines v]) dataset)))"

text \<open>The outer loop: \<^verbatim>\<open>for rev in revs\<close>.\<close>

fun project_all ::
  "raw_review list \<Rightarrow> (string \<times> string) list \<Rightarrow> (string \<times> pyval list) list \<Rightarrow>
     py_error + (string \<times> pyval list) list" where
  "project_all [] pairs dataset = Inr dataset"
| "project_all (rv # revs) pairs dataset =
     (case project_fields rv pairs dataset of
        Inl e \<Rightarrow> Inl e
      | Inr dataset' \<Rightarrow> project_all revs pairs dataset')"

text \<open>
  \<^verbatim>\<open>"" if value is None or isinstance(value, str) else value.strftime("%d/%m/%Y")\<close>
  Only a \<^verbatim>\<open>datetime\<close> has the method; on any other value the attribute lookup fails.
\<close>

definition date_cell :: "pyval \<Rightarrow> py_error + pyval" where
  "date_cell v =
     (case v of
        PNone \<Rightarrow> Inr (PStr [])
      | PStr s \<Rightarrow> Inr (PStr [])
      | PDatetime d \<Rightarrow> Inr (PStr (strftime_dmY d))
      | _ \<Rightarrow> Inl (AttributeError ''strftime''))"

text \<open>A list comprehension whose element expression can raise: the first exception ends it.\<close>

fun map_result :: "('a \<Rightarrow> py_error + 'b) \<Rightarrow> 'a list \<Rightarrow> py_error + 'b list" where
  "map_result f [] = Inr []"
| "map_result f (x # xs) =
     (case f x of
        Inl e \<Rightarrow> Inl e
      | Inr y \<Rightarrow> (case map_result f xs of Inl e \<Rightarrow> Inl e | Inr ys \<Rightarrow> Inr (y # ys)))"

text \<open>\<^verbatim>\<open>dataset[key] = [... for value in dataset[key]]\<close>\<close>

definition date_column ::
  "string \<Rightarrow> (string \<times> pyval list) list \<Rightarrow> py_error + (string \<times> pyval list) list" where
  "date_column key dataset =
     (case dict_getitem dataset key of
        Inl e \<Rightarrow> Inl e
      | Inr col \<Rightarrow>
          (case map_result date_cell col of
             Inl e \<Rightarrow> Inl e
           | Inr col' \<Rightarrow> Inr (AList.update key col' dataset)))"

text \<open>
  \<^verbatim>\<open>_format_generic\<close> up to its last line: the dictionary \<open>dataset\<close> of columns, created
  by \<^verbatim>\<open>{key: [] for key in dataset_cols}\<close>, filled by the two loops, its two date columns
  rewritten.
\<close>

definition format_generic_dataset ::
  "raw_review list \<Rightarrow> string list \<Rightarrow> string list \<Rightarrow> py_error + (string \<times> pyval list) list" where
  "format_generic_dataset revs dataset_cols revs_cols =
     (case project_all revs (zip revs_cols dataset_cols)
             (foldl (\<lambda>d key. AList.update key [] d) [] dataset_cols) of
        Inl e \<Rightarrow> Inl e
      | Inr dataset \<Rightarrow>
          (case date_column ''Datetime'' dataset of
             Inl e \<Rightarrow> Inl e
           | Inr dataset' \<Rightarrow> date_column ''Reply Datetime'' dataset'))"

text \<open>
  \<^verbatim>\<open>_format_generic\<close> (an Isabelle name cannot start with an underscore). Its last line:
  \<^verbatim>\<open>np.concatenate([np.array([list(dataset.keys())]), np.array(list(dataset.values())).T])\<close>
\<close>

definition format_generic ::
  "raw_review list \<Rightarrow> string list \<Rightarrow> string list \<Rightarrow> py_error + ndarray" where
  "format_generic revs dataset_cols revs_cols =
     (case format_generic_dataset revs dataset_cols revs_cols of
        Inl e \<Rightarrow> Inl e
      | Inr dataset \<Rightarrow>
          (case np_array [map (PStr \<circ> fst) dataset] of
             Inl e \<Rightarrow> Inl e
           | Inr header \<Rightarrow>
               (case np_array (map snd dataset) of
                  Inl e \<Rightarrow> Inl e
                | Inr body \<Rightarrow> np_concatenate header (np_T body))))"

text \<open>
  The loop body of \<^verbatim>\<open>formate_appstore_reviews\<close>. It assigns into the review, so it
  returns the review as it stands when the body ends, with the exception if one was
  raised. \<^verbatim>\<open>datetime.strptime\<close> is the standard library's parser, a parameter here:
  given the text and the format it returns the parsed value or the message of its
  \<open>ValueError\<close>; a first argument that is not a text is a \<open>TypeError\<close>.
\<close>

type_synonym strptime_fn = "string \<Rightarrow> string \<Rightarrow> string + datetime"

definition py_strptime :: "strptime_fn \<Rightarrow> pyval \<Rightarrow> string \<Rightarrow> py_error + pyval" where
  "py_strptime strptime x fmt =
     (case x of
        PStr s \<Rightarrow> (case strptime s fmt of Inl msg \<Rightarrow> Inl (ValueError msg) | Inr d \<Rightarrow> Inr (PDatetime d))
      | _ \<Rightarrow> Inl TypeError)"

definition preprocess_appstore_review :: "strptime_fn \<Rightarrow> raw_review \<Rightarrow> raw_review \<times> py_error option" where
  "preprocess_appstore_review strptime rv =
     (case dict_getitem rv ''title'' of
        Inl e \<Rightarrow> (rv, Some e)
      | Inr title \<Rightarrow>
     (case dict_getitem rv ''review'' of
        Inl e \<Rightarrow> (rv, Some e)
      | Inr review \<Rightarrow>
     (case py_add title review of
        Inl e \<Rightarrow> (rv, Some e)
      | Inr text \<Rightarrow>
          let rev1 = AList.update ''review'' text rv in
          if map_of rev1 ''developerResponse'' \<noteq> None then
            (case dict_getitem rev1 ''developerResponse'' of
               Inl e \<Rightarrow> (rev1, Some e)
             | Inr response \<Rightarrow>
            (case py_getitem response ''body'' of
               Inl e \<Rightarrow> (rev1, Some e)
             | Inr body \<Rightarrow>
                 let rev2 = AList.update ''replyContent'' body rev1 in
            (case dict_getitem rev2 ''developerResponse'' of
               Inl e \<Rightarrow> (rev2, Some e)
             | Inr response' \<Rightarrow>
            (case py_getitem response' ''modified'' of
               Inl e \<Rightarrow> (rev2, Some e)
             | Inr modified \<Rightarrow>
            (case py_strptime strptime modified ''%Y-%m-%dT%H:%M:%SZ'' of
               Inl e \<Rightarrow> (rev2, Some e)
             | Inr replied \<Rightarrow> (AList.update ''repliedAt'' replied rev2, None))))))
          else
            (AList.update ''repliedAt'' (PStr [])
               (AList.update ''replyContent'' (PStr []) rev1), None))))"

text \<open>
  \<^verbatim>\<open>for rev in revs\<close>: the reviews as the loop leaves them (those before an exception
  rewritten, those after it untouched), and the exception if one was raised.
\<close>

fun preprocess_appstore_reviews ::
  "strptime_fn \<Rightarrow> raw_review list \<Rightarrow> raw_review list \<times> py_error option" where
  "preprocess_appstore_reviews strptime [] = ([], None)"
| "preprocess_appstore_reviews strptime (rv # revs) =
     (case preprocess_appstore_review strptime rv of
        (rv', Some e) \<Rightarrow> (rv' # revs, Some e)
      | (rv', None) \<Rightarrow>
          (case preprocess_appstore_reviews strptime revs of
             (revs', err) \<Rightarrow> (rv' # revs', err)))"

definition appstore_revs_cols :: "string list" where
  "appstore_revs_cols = [''date'', ''userName'', ''review'', ''rating'', ''replyContent'', ''repliedAt'']"

definition appstore_dataset_cols :: "string list" where
  "appstore_dataset_cols =
     [''Datetime'', ''Username'', ''Review'', ''Rating'', ''Reply'', ''Reply Datetime'']"

text \<open>
  \<^verbatim>\<open>formate_appstore_reviews\<close> returns the table; the caller's list of reviews has been
  rewritten in place, so the model returns it as well (first component).
\<close>

definition formate_appstore_reviews ::
  "strptime_fn \<Rightarrow> raw_review list \<Rightarrow> raw_review list \<times> (py_error + ndarray)" where
  "formate_appstore_reviews strptime revs =
     (case preprocess_appstore_reviews strptime revs of
        (revs', Some e) \<Rightarrow> (revs', Inl e)
      | (revs', None) \<Rightarrow> (revs', format_generic revs' appstore_dataset_cols appstore_revs_cols))"

text \<open>
  The reviews of a batch are objects: the list holds references, and one review may stand
  at several positions of it. Where that matters the records live in a store, a map from
  addresses to records, and the batch is the list of their addresses. The loop
  \<^verbatim>\<open>for rev in revs\<close> rewrites the record at each address in turn (a record that stands
  twice in the list is rewritten twice), and \<^verbatim>\<open>_format_generic\<close> reads the records
  through the same addresses.
\<close>

type_synonym review_store = "nat \<Rightarrow> raw_review"

fun preprocess_appstore_store ::
  "strptime_fn \<Rightarrow> review_store \<Rightarrow> nat list \<Rightarrow> review_store \<times> py_error option" where
  "preprocess_appstore_store strptime h [] = (h, None)"
| "preprocess_appstore_store strptime h (a # batch) =
     (case preprocess_appstore_review strptime (h a) of
        (rv', Some e) \<Rightarrow> (h(a := rv'), Some e)
      | (rv', None) \<Rightarrow> preprocess_appstore_store strptime (h(a := rv')) batch)"

definition formate_appstore_reviews_store ::
  "strptime_fn \<Rightarrow> review_store \<Rightarrow> nat list \<Rightarrow> review_store \<times> (py_error + ndarray)" where
  "formate_appstore_reviews_store strptime h batch =
     (case preprocess_appstore_store strptime h batch of
        (h', Some e) \<Rightarrow> (h', Inl e)
      | (h', None) \<Rightarrow>
          (h', format_generic (map h' batch) appstore_dataset_cols appstore_revs_cols))"

definition playstore_revs_cols :: "string list" where
  "playstore_revs_cols =
     [''at'', ''userName'', ''content'', ''score'', ''replyContent'', ''repliedAt'', ''thumbsUpCount'']"

definition playstore_dataset_cols :: "string list" where
  "playstore_dataset_cols =
     [''Datetime'', ''Username'', ''Review'', ''Rating'', ''Reply'', ''Reply Datetime'', ''Thumbs Up'']"

text \<open>\<^verbatim>\<open>format_playstore_reviews\<close> only reads the reviews.\<close>

definition format_playstore_reviews :: "raw_review list \<Rightarrow> raw_review list \<times> (py_error + ndarray)" where
  "format_playstore_reviews revs =
     (revs, format_generic revs playstore_dataset_cols playstore_revs_cols)"

section \<open>The request handler (app.py)\<close>

text \<open>
  The two platform branches of \<^verbatim>\<open>start_review_scraping\<close>. Each ends in
  \<^verbatim>\<open>dcc.send_data_frame(dataset.to_csv, filename=..., index=False)\<close>, whose first
  argument is evaluated before the call: the table is a NumPy array, which has no
  attribute \<^verbatim>\<open>to_csv\<close>, so the branch raises \<open>AttributeError\<close> and the download
  (of type \<open>'d\<close>) is never built. The default limits are \<^verbatim>\<open>sys.maxsize\<close> and 100000.
\<close>

definition appstore_path :: "strptime_fn \<Rightarrow> appstore_service \<Rightarrow> string \<Rightarrow> py_error + 'd" where
  "appstore_path strptime service url =
     (case get_app_id_name_from_appstore_url url of
        Inl e \<Rightarrow> Inl e
      | Inr (a_id, a_name) \<Rightarrow>
          (case snd (formate_appstore_reviews strptime
                  (retrieve_appstore_reviews service a_name a_id ''it'' (2 ^ 63 - 1))) of
             Inl e \<Rightarrow> Inl e
           | Inr appstore_dataset \<Rightarrow> Inl (AttributeError ''to_csv'')))"

definition playstore_path :: "('w, 'tok, raw_review) reviews_service \<Rightarrow> 'w \<Rightarrow> string \<Rightarrow> py_error + 'd" where
  "playstore_path reviews w url =
     (case get_app_id_from_playstore_url url of
        Inl e \<Rightarrow> Inl e
      | Inr a_id \<Rightarrow>
          (case snd (format_playstore_reviews
                  (retrieve_playstore_reviews reviews w a_id ''it'' ''it'' 100000)) of
             Inl e \<Rightarrow> Inl e
           | Inr playstore_dataset \<Rightarrow> Inl (AttributeError ''to_csv'')))"

text \<open>
  \<^verbatim>\<open>start_review_scraping(n_clicks, n_submits, url)\<close>. The two counters come from the
  front end and may be \<^verbatim>\<open>None\<close>.
\<close>

definition start_review_scraping ::
  "strptime_fn \<Rightarrow> appstore_service \<Rightarrow> ('w, 'tok, raw_review) reviews_service \<Rightarrow> 'w \<Rightarrow>
     int option \<Rightarrow> int option \<Rightarrow> string \<Rightarrow> py_error + 'd" where
  "start_review_scraping strptime service reviews w n_clicks n_submits url =
     (if n_clicks = Some 0 \<and> n_submits = Some 0 then Inl PreventUpdate
      else if sublist ''apps.apple.com'' url then appstore_path strptime service url
      else if sublist ''play.google.com'' url then playstore_path reviews w url
      else Inl (ValueError ''Invalid url. Make sure to use a Playstore or Appstore url.''))"

section \<open>Predicates of the statements\<close>

text \<open>The values that can stand in a date column without an exception.\<close>

definition date_like :: "pyval \<Rightarrow> bool" where
  "date_like v = (case v of PNone \<Rightarrow> True | PStr s \<Rightarrow> True | PDatetime d \<Rightarrow> True | _ \<Rightarrow> False)"

text \<open>
  A text of ten characters: two digits, a slash, two digits, a slash, four digits.
\<close>

definition is_digit :: "char \<Rightarrow> bool" where
  "is_digit c \<longleftrightarrow> c \<in> set ''0123456789''"

definition day_month_year_format :: "string \<Rightarrow> bool" where
  "day_month_year_format s \<longleftrightarrow>
     length s = 10 \<and> list_all is_digit (take 2 s) \<and> s ! 2 = CHR ''/''
     \<and> list_all is_digit (take 2 (drop 3 s)) \<and> s ! 5 = CHR ''/''
     \<and> list_all is_digit (drop 6 s)"

text \<open>
  The text of a date written out digit by digit: a day or a month as two digits, a year
  as its decimal digits without leading zeros (four of them from the year 1000 on).
\<close>

definition two_digits :: "nat \<Rightarrow> string" where
  "two_digits n = [''0123456789'' ! (n div 10), ''0123456789'' ! (n mod 10)]"

definition year_digits :: "nat \<Rightarrow> string" where
  "year_digits y =
     (if y < 10 then [''0123456789'' ! y]
      else if y < 100 then [''0123456789'' ! (y div 10), ''0123456789'' ! (y mod 10)]
      else if y < 1000 then
        [''0123456789'' ! (y div 100), ''0123456789'' ! (y div 10 mod 10),
         ''0123456789'' ! (y mod 10)]
      else
        [''0123456789'' ! (y div 1000), ''0123456789'' ! (y div 100 mod 10),
         ''0123456789'' ! (y div 10 mod 10), ''0123456789'' ! (y mod 10)])"

text \<open>
  The two pairs of column lists with which the program calls \<open>format_generic\<close>:
  output column names first, field names second.
\<close>

definition platform_columns :: "(string list \<times> string list) set" where
  "platform_columns =
     {(appstore_dataset_cols, appstore_revs_cols), (playstore_dataset_cols, playstore_revs_cols)}"

text \<open>
  A review that \<open>format_generic\<close> can project: every field named in \<open>R\<close> is present,
  and the fields of the two date columns hold \<^verbatim>\<open>None\<close>, a text or a \<^verbatim>\<open>datetime\<close>.
\<close>

definition projectable :: "string list \<Rightarrow> string list \<Rightarrow> raw_review \<Rightarrow> bool" where
  "projectable K R rv =
     list_all (\<lambda>(k, r). case map_of rv r of
                   None \<Rightarrow> False
                 | Some v \<Rightarrow> (k = ''Datetime'' \<or> k = ''Reply Datetime'' \<longrightarrow> date_like v))
       (zip K R)"

section \<open>Sample records\<close>

text \<open>
  Records of the shape the two services deliver, used where a statement is evaluated on
  a concrete input: a Play Store review without and with a developer reply and one dated
  in the year 5, an App Store review without and with a developer response and the first
  of them again with its fields in another order, and a stand-in for
  \<^verbatim>\<open>datetime.strptime\<close> that parses the one timestamp of the samples.
\<close>

definition playstore_sample :: raw_review where
  "playstore_sample =
     [(''reviewId'', PStr ''r1''),
      (''userName'', PStr [CHR ''a'', CHR 0x0A, CHR ''b'']),
      (''content'', PStr [CHR ''x'', CHR 0x0A, CHR 0x0A, CHR ''y'']),
      (''score'', PInt 4),
      (''thumbsUpCount'', PInt 12),
      (''at'', PDatetime \<lparr>dt_year = 2023, dt_month = 3, dt_day = 5, dt_hour = 10, dt_minute = 30,
                            dt_second = 0, dt_microsecond = 0\<rparr>),
      (''replyContent'', PNone),
      (''repliedAt'', PNone)]"

definition playstore_sample_replied :: raw_review where
  "playstore_sample_replied =
     [(''reviewId'', PStr ''r2''),
      (''userName'', PStr ''bob''),
      (''content'', PStr ''ok''),
      (''score'', PInt 4),
      (''thumbsUpCount'', PInt 12),
      (''at'', PDatetime \<lparr>dt_year = 2023, dt_month = 3, dt_day = 5, dt_hour = 10, dt_minute = 30,
                            dt_second = 0, dt_microsecond = 0\<rparr>),
      (''replyContent'', PStr ''thx''),
      (''repliedAt'', PDatetime \<lparr>dt_year = 2023, dt_month = 3, dt_day = 6, dt_hour = 9, dt_minute = 0,
                                   dt_second = 0, dt_microsecond = 0\<rparr>)]"

definition playstore_sample_early :: raw_review where
  "playstore_sample_early =
     [(''reviewId'', PStr ''r3''),
      (''userName'', PStr ''eve''),
      (''content'', PStr ''old''),
      (''score'', PInt 3),
      (''thumbsUpCount'', PInt 0),
      (''at'', PDatetime \<lparr>dt_year = 5, dt_month = 1, dt_day = 2, dt_hour = 0, dt_minute = 0,
                            dt_second = 0, dt_microsecond = 0\<rparr>),
      (''replyContent'', PNone),
      (''repliedAt'', PNone)]"

definition appstore_sample :: raw_review where
  "appstore_sample =
     [(''date'', PDatetime \<lparr>dt_year = 2023, dt_month = 3, dt_day = 5, dt_hour = 10, dt_minute = 30,
                              dt_second = 0, dt_microsecond = 0\<rparr>),
      (''review'', PStr '' app''),
      (''rating'', PInt 5),
      (''isEdited'', PBool False),
      (''title'', PStr ''Great''),
      (''userName'', PStr ''bob'')]"

definition appstore_sample_reordered :: raw_review where
  "appstore_sample_reordered =
     [(''userName'', PStr ''bob''),
      (''title'', PStr ''Great''),
      (''isEdited'', PBool False),
      (''rating'', PInt 5),
      (''review'', PStr '' app''),
      (''date'', PDatetime \<lparr>dt_year = 2023, dt_month = 3, dt_day = 5, dt_hour = 10, dt_minute = 30,
                              dt_second = 0, dt_microsecond = 0\<rparr>)]"

definition appstore_sample_replied :: raw_review where
  "appstore_sample_replied =
     [(''date'', PDatetime \<lparr>dt_year = 2023, dt_month = 3, dt_day = 5, dt_hour = 10, dt_minute = 30,
                              dt_second = 0, dt_microsecond = 0\<rparr>),
      (''developerResponse'',
         PDict [(''id'', PInt 7), (''body'', PStr ''thanks''),
                (''modified'', PStr ''2023-03-06T09:00:00Z'')]),
      (''review'', PStr '' app''),
      (''rating'', PInt 5),
      (''isEdited'', PBool False),
      (''title'', PStr ''Great''),
      (''userName'', PStr ''bob'')]"

definition sample_strptime :: strptime_fn where
  "sample_strptime s fmt =
     (if s = ''2023-03-06T09:00:00Z'' \<and> fmt = ''%Y-%m-%dT%H:%M:%SZ''
      then Inr \<lparr>dt_year = 2023, dt_month = 3, dt_day = 6, dt_hour = 9, dt_minute = 0,
                 dt_second = 0, dt_microsecond = 0\<rparr>
      else Inl ''time data does not match format'')"

text \<open>Two services with nothing to deliver: no App Store review, an empty first page.\<close>

definition no_reviews_service :: appstore_service where
  "no_reviews_service ctry a_name a_id how_many = []"

definition no_pages_service :: "(unit, unit, raw_review) reviews_service" where
  "no_pages_service w req = (([], None), w)"
section \<open>Facts about splitting, indexing and replacing\<close>

lemma py_split_not_Nil: "py_split sep s \<noteq> []"
  by (induction s) (auto split: list.splits)

lemma py_split_no_sep: "sep \<notin> set s \<Longrightarrow> py_split sep s = [s]"
  by (induction s) auto

lemma py_split_snoc:
  "sep \<notin> set seg \<Longrightarrow> py_split sep (xs @ sep # seg) = py_split sep xs @ [seg]"
proof (induction xs)
  case Nil
  then show ?case by (simp add: py_split_no_sep)
next
  case (Cons x xs)
  obtain w ws where ws: "py_split sep xs = w # ws"
    using py_split_not_Nil [of sep xs] by (cases "py_split sep xs") auto
  with Cons show ?case by simp
qed

lemma last_segment_no_slash: "CHR ''/'' \<notin> set s \<Longrightarrow> last_segment s = s"
proof -
  assume "CHR ''/'' \<notin> set s"
  then have "\<forall>c \<in> set (rev s). c \<noteq> CHR ''/''"
    by auto
  then have eq: "takeWhile (\<lambda>c. c \<noteq> CHR ''/'') (rev s) = rev s"
    by (simp only: takeWhile_eq_all_conv)
  show ?thesis unfolding last_segment_def eq by simp
qed

lemma last_segment_snoc:
  assumes "CHR ''/'' \<notin> set seg"
  shows "last_segment (xs @ CHR ''/'' # seg) = seg"
proof -
  have "takeWhile (\<lambda>c. c \<noteq> CHR ''/'') (rev seg @ CHR ''/'' # rev xs) = rev seg"
    using assms by (subst takeWhile_append2) auto
  then show ?thesis by (simp add: last_segment_def)
qed

lemma before_last_slash_snoc:
  "CHR ''/'' \<notin> set seg \<Longrightarrow> before_last_slash (xs @ CHR ''/'' # seg) = xs"
  by (simp add: before_last_slash_def last_segment_snoc)

lemma last_py_split: "last (py_split CHR ''/'' s) = last_segment s"
proof (cases "CHR ''/'' \<in> set s")
  case False
  then show ?thesis by (simp add: py_split_no_sep last_segment_no_slash)
next
  case True
  then obtain xs seg where "s = xs @ CHR ''/'' # seg" "CHR ''/'' \<notin> set seg"
    by (meson split_list_last)
  then show ?thesis by (simp add: py_split_snoc last_segment_snoc)
qed

lemma py_index_last: "py_index (xs @ [a]) (- 1) = Inr a"
  by (simp add: py_index_def nth_append)

lemma py_index_before_last: "xs \<noteq> [] \<Longrightarrow> py_index (xs @ [a]) (- 2) = Inr (last xs)"
proof -
  assume ne: "xs \<noteq> []"
  then have "nat (int (length xs) + 1 - 2) = length xs - 1"
    by (cases xs) auto
  moreover from ne have "Suc 0 \<le> length xs"
    by (cases xs) auto
  ultimately show ?thesis
    using ne by (simp add: py_index_def nth_append last_conv_nth)
qed

lemma py_replace_absent:
  "old \<noteq> [] \<Longrightarrow> \<not> sublist old s \<Longrightarrow> py_replace old new s = s"
proof (induction s)
  case Nil
  then show ?case by simp
next
  case (Cons c cs)
  from Cons.prems have "\<not> prefix old (c # cs)" "\<not> sublist old cs"
    by (auto simp: sublist_Cons_right)
  with Cons show ?case by simp
qed

lemma appstore_url_no_slash:
  "CHR ''/'' \<notin> set url \<Longrightarrow> get_app_id_name_from_appstore_url url = Inl IndexError"
  by (simp add: get_app_id_name_from_appstore_url_def py_split_no_sep py_index_def)

lemma appstore_url_slash:
  assumes "CHR ''/'' \<in> set url"
  shows "get_app_id_name_from_appstore_url url =
           Inr (py_replace ''id'' '''' (last_segment url), last_segment (before_last_slash url))"
proof -
  from assms obtain xs seg where url: "url = xs @ CHR ''/'' # seg" and seg: "CHR ''/'' \<notin> set seg"
    by (meson split_list_last)
  have split: "py_split CHR ''/'' url = py_split CHR ''/'' xs @ [seg]"
    using url seg by (simp add: py_split_snoc)
  have "py_index (py_split CHR ''/'' url) (- 2) = Inr (last (py_split CHR ''/'' xs))"
    unfolding split by (rule py_index_before_last) (rule py_split_not_Nil)
  moreover have "py_index (py_split CHR ''/'' url) (- 1) = Inr seg"
    unfolding split by (rule py_index_last)
  ultimately show ?thesis
    using url seg
    by (simp add: get_app_id_name_from_appstore_url_def last_py_split
        last_segment_snoc before_last_slash_snoc)
qed


section \<open>Facts about the pagination loop\<close>

lemma pages_upto_Suc:
  "pages_upto reviews req w (Suc n) = pages_upto reviews req w n @ nth_page reviews req w n"
  by (simp add: pages_upto_def)

lemma retrieve_loop_pages:
  fixes reviews :: "('w, 'tok, 'r) reviews_service"
  assumes req: "req = playstore_request a_id lng ctry"
  shows "\<exists>n\<ge>k. retrieve_loop reviews a_id lng ctry how_many (pages_upto reviews req w k)
              (fst (service_state reviews req w k)) (snd (service_state reviews req w k))
            = pages_upto reviews req w n
          \<and> (\<forall>j. k \<le> j \<and> j < n \<longrightarrow> nth_page reviews req w j \<noteq> []
                 \<and> int (length (pages_upto reviews req w j)) < how_many)
          \<and> (how_many \<le> int (length (pages_upto reviews req w n)) \<or> nth_page reviews req w n = [])"
proof (induction "nat (how_many - int (length (pages_upto reviews req w k)))" arbitrary: k rule: less_induct)
  case less
  let ?res = "pages_upto reviews req w k"
  obtain tok wk where st: "service_state reviews req w k = (tok, wk)"
    by (cases "service_state reviews req w k")
  obtain new tok' w' where call: "reviews wk (req tok) = ((new, tok'), w')"
    by (metis surj_pair)
  have page: "nth_page reviews req w k = new"
    by (simp add: nth_page_def st call)
  have st': "service_state reviews req w (Suc k) = (tok', w')"
    by (simp add: st call)
  show ?case
  proof (cases "int (length ?res) < how_many")
    case False
    then have "retrieve_loop reviews a_id lng ctry how_many ?res tok wk = ?res"
      by (simp add: retrieve_loop.simps)
    with False show ?thesis
      by (intro exI [of _ k]) (auto simp: st)
  next
    case lt: True
    show ?thesis
    proof (cases "new = []")
      case True
      with lt have "retrieve_loop reviews a_id lng ctry how_many ?res tok wk = ?res"
        using call req by (subst retrieve_loop.simps) simp
      with True page show ?thesis
        by (intro exI [of _ k]) (auto simp: st)
    next
      case False
      with lt have step: "retrieve_loop reviews a_id lng ctry how_many ?res tok wk
          = retrieve_loop reviews a_id lng ctry how_many (pages_upto reviews req w (Suc k)) tok' w'"
        using call req page by (subst retrieve_loop.simps) (simp add: pages_upto_Suc)
      have "nat (how_many - int (length (pages_upto reviews req w (Suc k))))
              < nat (how_many - int (length ?res))"
        using lt False page by (simp add: pages_upto_Suc)
      from less [OF this] obtain n where n: "Suc k \<le> n"
        "retrieve_loop reviews a_id lng ctry how_many (pages_upto reviews req w (Suc k)) tok' w'
           = pages_upto reviews req w n"
        "\<forall>j. Suc k \<le> j \<and> j < n \<longrightarrow> nth_page reviews req w j \<noteq> []
                 \<and> int (length (pages_upto reviews req w j)) < how_many"
        "how_many \<le> int (length (pages_upto reviews req w n)) \<or> nth_page reviews req w n = []"
        unfolding st' by auto
      have "\<forall>j. k \<le> j \<and> j < n \<longrightarrow> nth_page reviews req w j \<noteq> []
                 \<and> int (length (pages_upto reviews req w j)) < how_many"
      proof (intro allI impI)
        fix j assume j: "k \<le> j \<and> j < n"
        show "nth_page reviews req w j \<noteq> [] \<and> int (length (pages_upto reviews req w j)) < how_many"
        proof (cases "j = k")
          case True
          with lt False page show ?thesis by simp
        next
          case False
          with j n(3) show ?thesis by (simp add: Suc_leI)
        qed
      qed
      with n step show ?thesis
        by (intro exI [of _ n]) (auto simp: st)
    qed
  qed
qed


lemma length_pages_upto:
  "length (pages_upto reviews req w n) = (\<Sum>k<n. length (nth_page reviews req w k))"
  by (induction n) (simp_all add: pages_upto_Suc, simp add: pages_upto_def)


section \<open>Facts about the projection\<close>

lemma dict_getitem_Inr: "dict_getitem d k = Inr v \<longleftrightarrow> map_of d k = Some v"
  by (simp add: dict_getitem_def split: option.splits)

lemma keys_update_present:
  "map_of d k = Some c \<Longrightarrow> map fst (AList.update k v d) = map fst d"
  by (simp add: AList.update_keys) (metis domI dom_map_of_conv_image_fst image_set)

lemma project_fields_cols:
  "project_fields rv pairs ds = Inr ds' \<Longrightarrow> distinct (map snd pairs) \<Longrightarrow>
     map fst ds' = map fst ds
     \<and> (\<forall>rk dk. (rk, dk) \<in> set pairs \<longrightarrow>
           (\<exists>v col. map_of rv rk = Some v \<and> map_of ds dk = Some col
                 \<and> map_of ds' dk = Some (col @ [strip_newlines v])))
     \<and> (\<forall>k. k \<notin> snd ` set pairs \<longrightarrow> map_of ds' k = map_of ds k)"
proof (induction pairs arbitrary: ds)
  case Nil
  then show ?case by simp
next
  case (Cons p pairs)
  obtain rk0 dk0 where p: "p = (rk0, dk0)" by (cases p)
  from Cons.prems(1) p obtain col v where
    col: "map_of ds dk0 = Some col" and v: "map_of rv rk0 = Some v"
    and rest: "project_fields rv pairs (AList.update dk0 (col @ [strip_newlines v]) ds) = Inr ds'"
    by (auto simp: dict_getitem_def split: option.splits sum.splits)
  let ?ds1 = "AList.update dk0 (col @ [strip_newlines v]) ds"
  from Cons.prems(2) p have d': "distinct (map snd pairs)" and notin: "dk0 \<notin> snd ` set pairs"
    by auto
  note IH = Cons.IH [OF rest d']
  have keys: "map fst ds' = map fst ds"
    using IH col by (simp add: keys_update_present)
  have head: "map_of ds' dk0 = Some (col @ [strip_newlines v])"
    using IH notin by (simp add: update_conv')
  have tail: "\<exists>v col. map_of rv rk = Some v \<and> map_of ds dk = Some col
                 \<and> map_of ds' dk = Some (col @ [strip_newlines v])"
    if mem: "(rk, dk) \<in> set pairs" for rk dk
  proof -
    from mem have "dk \<noteq> dk0" using notin by force
    then have same: "map_of ?ds1 dk = map_of ds dk"
      by (simp add: update_conv')
    from IH mem have "\<exists>v col. map_of rv rk = Some v \<and> map_of ?ds1 dk = Some col
                 \<and> map_of ds' dk = Some (col @ [strip_newlines v])"
      by blast
    then show ?thesis unfolding same .
  qed
  have other: "map_of ds' k = map_of ds k" if "k \<notin> snd ` set (p # pairs)" for k
  proof -
    from that have "k \<notin> snd ` set pairs" "k \<noteq> dk0" using p by auto
    with IH show ?thesis
      by (simp add: update_conv')
  qed
  show ?case
    using keys head tail other col v p by auto
qed

lemma project_all_cols:
  "project_all revs pairs ds = Inr ds' \<Longrightarrow> distinct (map snd pairs) \<Longrightarrow>
     snd ` set pairs \<subseteq> fst ` set ds \<Longrightarrow>
     map fst ds' = map fst ds
     \<and> (\<forall>rk dk. (rk, dk) \<in> set pairs \<longrightarrow>
           (\<forall>rv \<in> set revs. map_of rv rk \<noteq> None)
           \<and> map_of ds' dk = Some (the (map_of ds dk)
                 @ map (\<lambda>rv. strip_newlines (the (map_of rv rk))) revs))
     \<and> (\<forall>k. k \<notin> snd ` set pairs \<longrightarrow> map_of ds' k = map_of ds k)"
proof (induction revs arbitrary: ds)
  case Nil
  then have "\<And>dk. dk \<in> snd ` set pairs \<Longrightarrow> \<exists>c. map_of ds dk = Some c"
    by (metis (no_types, lifting) domD dom_map_of_conv_image_fst subsetD)
  with Nil show ?case by force
next
  case (Cons rv revs)
  from Cons.prems(1) obtain ds1 where
    one: "project_fields rv pairs ds = Inr ds1" and rest: "project_all revs pairs ds1 = Inr ds'"
    by (auto split: sum.splits)
  note F = project_fields_cols [OF one Cons.prems(2)]
  from F have keys1: "map fst ds1 = map fst ds" by simp
  then have "fst ` set ds1 = fst ` set ds"
    by (metis image_set)
  with Cons.prems(3) have sub: "snd ` set pairs \<subseteq> fst ` set ds1" by simp
  note IH = Cons.IH [OF rest Cons.prems(2) sub]
  show ?case
  proof (intro conjI allI impI)
    show "map fst ds' = map fst ds" using IH keys1 by simp
  next
    fix rk dk assume mem: "(rk, dk) \<in> set pairs"
    with F obtain v col where v: "map_of rv rk = Some v" "map_of ds dk = Some col"
      "map_of ds1 dk = Some (col @ [strip_newlines v])" by blast
    with IH mem show "\<forall>rv\<in>set (rv # revs). map_of rv rk \<noteq> None" by auto
    from IH mem v show "map_of ds' dk = Some (the (map_of ds dk)
                 @ map (\<lambda>rv. strip_newlines (the (map_of rv rk))) (rv # revs))"
      by simp
  next
    fix k assume "k \<notin> snd ` set pairs"
    with IH F show "map_of ds' k = map_of ds k" by simp
  qed
qed

lemma map_result_Inr:
  "map_result f xs = Inr ys \<longleftrightarrow> length ys = length xs \<and> (\<forall>i<length xs. f (xs ! i) = Inr (ys ! i))"
proof (induction xs arbitrary: ys)
  case Nil
  then show ?case by auto
next
  case (Cons x xs)
  show ?case
  proof (cases ys)
    case Nil
    then show ?thesis by (auto split: sum.splits)
  next
    case (Cons y ys')
    then show ?thesis
      using Cons.IH [of ys']
      by (auto split: sum.splits simp: nth_Cons split: nat.splits) 
  qed
qed

lemma date_column_cols:
  "date_column key ds = Inr ds' \<Longrightarrow>
     map fst ds' = map fst ds
     \<and> (\<exists>col col'. map_of ds key = Some col \<and> map_result date_cell col = Inr col'
           \<and> map_of ds' = (map_of ds)(key \<mapsto> col'))"
  by (auto simp: date_column_def dict_getitem_def update_conv' keys_update_present
      split: option.splits sum.splits)

lemma update_new_key: "k \<notin> fst ` set al \<Longrightarrow> AList.update k v al = al @ [(k, v)]"
  by (induction al) auto

lemma empty_columns:
  "distinct (map fst acc @ cols) \<Longrightarrow>
     foldl (\<lambda>d key. AList.update key [] d) acc cols = acc @ map (\<lambda>k. (k, [])) cols"
proof (induction cols arbitrary: acc)
  case Nil
  then show ?case by simp
next
  case (Cons k cols)
  from Cons.prems have new: "k \<notin> fst ` set acc" by auto
  from Cons.prems have "distinct (map fst (acc @ [(k, [])]) @ cols)" by auto
  from Cons.IH [OF this] show ?case
    by (simp add: update_new_key [OF new])
qed

lemma map_of_keys_nth:
  "map fst ds = K \<Longrightarrow> distinct K \<Longrightarrow> j < length K \<Longrightarrow> map_of ds (K ! j) = Some (snd (ds ! j))"
proof -
  assume a: "map fst ds = K" "distinct K" "j < length K"
  then have len: "j < length ds" by (metis length_map)
  have "ds ! j \<in> set ds" using len by simp
  moreover have "fst (ds ! j) = K ! j" using a(1) len by (metis nth_map)
  ultimately have "(K ! j, snd (ds ! j)) \<in> set ds" by (metis prod.collapse)
  with a(1,2) show ?thesis by (metis map_of_is_SomeI)
qed

lemma date_cell_is_str: "date_cell v = Inr c \<Longrightarrow> is_str c"
  by (auto simp: date_cell_def is_str_def split: pyval.splits)

text \<open>The columns of the dictionary that \<open>format_generic_dataset\<close> returns.\<close>

lemma format_generic_dataset_cols:
  assumes run: "format_generic_dataset revs K R = Inr ds"
    and K: "distinct K" and len: "length R = length K"
  shows "map fst ds = K"
    and "j < length K \<Longrightarrow>
           \<exists>col. map_of ds (K ! j) = Some col \<and> length col = length revs
             \<and> (\<forall>i<length revs. \<exists>v. map_of (revs ! i) (R ! j) = Some v
                   \<and> (if K ! j = ''Datetime'' \<or> K ! j = ''Reply Datetime''
                       then date_cell (strip_newlines v) = Inr (col ! i)
                       else col ! i = strip_newlines v))"
    and "''Datetime'' \<in> set K \<and> ''Reply Datetime'' \<in> set K"
proof -
  let ?init = "map (\<lambda>k. (k, [])) K :: (string \<times> pyval list) list"
  have init: "foldl (\<lambda>d key. AList.update key [] d) [] K = ?init"
    using empty_columns [of "[]" K] K by simp
  from run obtain ds1 ds2 where
    p: "project_all revs (zip R K) ?init = Inr ds1"
    and d1: "date_column ''Datetime'' ds1 = Inr ds2"
    and d2: "date_column ''Reply Datetime'' ds2 = Inr ds"
    by (auto simp: format_generic_dataset_def init split: sum.splits)
  have snd_zip: "map snd (zip R K) = K" using len by simp
  then have dist: "distinct (map snd (zip R K))" using K by simp
  have "snd ` set (zip R K) = set K"
    using snd_zip by (metis image_set)
  then have sub: "snd ` set (zip R K) \<subseteq> fst ` set ?init" by force
  note P = project_all_cols [OF p dist sub]
  note D1 = date_column_cols [OF d1]
  note D2 = date_column_cols [OF d2]
  from P have k1: "map fst ds1 = K" by (simp add: comp_def)
  show keys: "map fst ds = K" using D1 D2 k1 by simp
  from D1 obtain a a' where a: "map_of ds1 ''Datetime'' = Some a"
    "map_result date_cell a = Inr a'" "map_of ds2 = (map_of ds1)(''Datetime'' \<mapsto> a')"
    by blast
  from D2 obtain b b' where b: "map_of ds2 ''Reply Datetime'' = Some b"
    "map_result date_cell b = Inr b'" "map_of ds = (map_of ds2)(''Reply Datetime'' \<mapsto> b')"
    by blast
  have "''Datetime'' \<in> fst ` set ds1"
    using a(1) by (metis domI dom_map_of_conv_image_fst)
  moreover have "''Reply Datetime'' \<in> fst ` set ds2"
    using b(1) by (metis domI dom_map_of_conv_image_fst)
  moreover have "fst ` set ds1 = set K" "fst ` set ds2 = set K"
    using k1 D1 by (metis image_set)+
  ultimately show "''Datetime'' \<in> set K \<and> ''Reply Datetime'' \<in> set K"
    by simp
  assume j: "j < length K"
  then have mem: "(R ! j, K ! j) \<in> set (zip R K)"
    using len by (metis in_set_zip fst_conv snd_conv)
  have init_j: "map_of ?init (K ! j) = Some []"
    using j by (simp add: map_of_map_restrict restrict_map_def)
  let ?col1 = "map (\<lambda>rv. strip_newlines (the (map_of rv (R ! j)))) revs"
  from P mem init_j have c1: "map_of ds1 (K ! j) = Some ?col1"
    and present: "\<forall>rv\<in>set revs. map_of rv (R ! j) \<noteq> None"
    by auto
  have raw: "\<exists>v. map_of (revs ! i) (R ! j) = Some v \<and> ?col1 ! i = strip_newlines v"
    if "i < length revs" for i
    using present that by (metis nth_map nth_mem option.exhaust_sel)
  consider (dt) "K ! j = ''Datetime''" | (rdt) "K ! j = ''Reply Datetime''"
    | (other) "K ! j \<noteq> ''Datetime''" "K ! j \<noteq> ''Reply Datetime''"
    by blast
  then show "\<exists>col. map_of ds (K ! j) = Some col \<and> length col = length revs
             \<and> (\<forall>i<length revs. \<exists>v. map_of (revs ! i) (R ! j) = Some v
                   \<and> (if K ! j = ''Datetime'' \<or> K ! j = ''Reply Datetime''
                       then date_cell (strip_newlines v) = Inr (col ! i)
                       else col ! i = strip_newlines v))"
  proof cases
    case dt
    then have "a = ?col1" using a(1) c1 by simp
    with a(2) have conv: "length a' = length revs"
      "\<forall>i<length revs. date_cell (?col1 ! i) = Inr (a' ! i)"
      by (simp_all add: map_result_Inr)
    have "map_of ds (K ! j) = Some a'"
      using dt a(3) b(3) by simp
    with conv raw dt show ?thesis by (intro exI [of _ a']) force
  next
    case rdt
    then have "b = ?col1" using b(1) a(3) c1 by simp
    with b(2) have conv: "length b' = length revs"
      "\<forall>i<length revs. date_cell (?col1 ! i) = Inr (b' ! i)"
      by (simp_all add: map_result_Inr)
    have "map_of ds (K ! j) = Some b'"
      using rdt b(3) by simp
    with conv raw rdt show ?thesis by (intro exI [of _ b']) force
  next
    case other
    then have "map_of ds (K ! j) = Some ?col1"
      using a(3) b(3) c1 by simp
    with raw other show ?thesis by (intro exI [of _ ?col1]) force
  qed
qed

lemma np_cast_item:
  "np_cast t (np_promote Unicode t) (np_item t v) = np_item (np_promote Unicode t) v"
  by (cases t) (simp_all add: np_cast_def np_promote_def np_item_def)

lemma np_cast_header:
  "np_cast Unicode (np_promote Unicode t) (np_item Unicode (PStr k)) = PStr (rstrip_nul k)"
  by (cases t) (simp_all add: np_cast_def np_promote_def np_item_def)

lemma np_promote_Unicode:
  "np_promote Unicode (np_result_dtype leaves)
     = (if list_all np_text_or_number leaves then Unicode else Object)"
  by (simp add: np_promote_def np_result_dtype_def)

lemma header_dtype:
  "ks \<noteq> [] \<Longrightarrow> np_result_dtype (map (PStr \<circ> f) ks) = Unicode"
  by (cases ks) (simp_all add: np_result_dtype_def np_text_or_number_def is_str_def list_all_iff)

lemma format_generic_of_dataset:
  assumes ds: "format_generic_dataset revs K R = Inr ds"
    and K: "distinct K" and len: "length R = length K"
  shows "\<exists>T. format_generic revs K R = Inr T
           \<and> dtype T = (if list_all np_text_or_number (concat (map snd ds)) then Unicode else Object)
           \<and> shape T = [Suc (length revs), length K]
           \<and> rows T = map (\<lambda>k. PStr (rstrip_nul k)) K
                # map (\<lambda>i. map (\<lambda>c. np_item (dtype T) (c ! i)) (map snd ds)) [0..<length revs]"
proof -
  note C = format_generic_dataset_cols [OF ds K len]
  let ?n = "length revs"
  let ?cols = "map snd ds"
  let ?hdr = "map (PStr \<circ> fst) ds"
  have lens: "length c = ?n" if "c \<in> set ?cols" for c
  proof -
    from that obtain d where "d \<in> set ds" "c = snd d"
      by auto
    then obtain j where j: "j < length ds" "c = snd (ds ! j)"
      by (auto simp: in_set_conv_nth)
    then have jK: "j < length K" using C(1) by (metis length_map)
    from C(2) [OF jK] map_of_keys_nth [OF C(1) K jK] j show ?thesis by auto
  qed
  from C(1,3) have "set (map fst ds) \<noteq> {}" by auto
  then have ne: "ds \<noteq> []" by auto
  then obtain d0 ds0 where dcons: "ds = d0 # ds0" by (cases ds) auto
  let ?dtb = "np_result_dtype (concat ?cols)"
  let ?dT = "np_promote Unicode ?dtb"
  define HR where "HR = [map (np_item Unicode) ?hdr]"
  define BR where "BR = map (\<lambda>i. map (\<lambda>c. np_item ?dtb (c ! i)) ?cols) [0..<?n]"
  have hdr: "np_array [?hdr] = Inr \<lparr>dtype = Unicode, shape = [1, length K], rows = HR\<rparr>"
    using ne C(1) header_dtype [of ds fst] unfolding HR_def
    by (simp add: np_array_def) (metis length_map)
  have not_ragged: "\<not> list_ex (\<lambda>ys. length ys \<noteq> length (snd d0)) (map snd ds0)"
    using lens dcons by (auto simp: list_ex_iff)
  have body: "np_array ?cols = Inr \<lparr>dtype = ?dtb, shape = [length K, ?n],
      rows = map (map (np_item ?dtb)) ?cols\<rparr>"
  proof -
    have "length (snd d0) = ?n" using lens dcons by simp
    moreover have "length ds = length K" using C(1) by (metis length_map)
    ultimately show ?thesis
      using not_ragged dcons by (simp add: np_array_def)
  qed
  have "map (\<lambda>i. map (\<lambda>r. r ! i) (map (map (np_item ?dtb)) ?cols)) [0..<?n] = BR"
    unfolding BR_def using lens by (auto simp: comp_def)
  then have bodyT: "np_T \<lparr>dtype = ?dtb, shape = [length K, ?n],
      rows = map (map (np_item ?dtb)) ?cols\<rparr> = \<lparr>dtype = ?dtb, shape = [?n, length K], rows = BR\<rparr>"
    by (simp add: np_T_def)
  have run: "format_generic revs K R = np_concatenate \<lparr>dtype = Unicode, shape = [1, length K], rows = HR\<rparr>
      \<lparr>dtype = ?dtb, shape = [?n, length K], rows = BR\<rparr>"
    unfolding format_generic_def ds sum.case hdr body bodyT ..
  define T where "T = \<lparr>dtype = ?dT, shape = [Suc ?n, length K],
      rows = map (map (np_cast Unicode ?dT)) HR @ map (map (np_cast ?dtb ?dT)) BR\<rparr>"
  have T0: "format_generic revs K R = Inr T"
    unfolding run T_def by (simp add: np_concatenate_def)
  have T: "dtype T = ?dT" "shape T = [Suc ?n, length K]"
    "rows T = map (map (np_cast Unicode ?dT)) HR @ map (map (np_cast ?dtb ?dT)) BR"
    by (simp_all add: T_def)
  have h: "map (map (np_cast Unicode ?dT)) HR = [map (\<lambda>k. PStr (rstrip_nul k)) K]"
    unfolding HR_def using C(1) by (auto simp: comp_def np_cast_header)
  have b: "map (map (np_cast ?dtb ?dT)) BR = map (\<lambda>i. map (\<lambda>c. np_item ?dT (c ! i)) ?cols) [0..<?n]"
    unfolding BR_def by (simp add: comp_def np_cast_item)
  have dT: "?dT = (if list_all np_text_or_number (concat ?cols) then Unicode else Object)"
    by (rule np_promote_Unicode)
  have "rows T = map (\<lambda>k. PStr (rstrip_nul k)) K
      # map (\<lambda>i. map (\<lambda>c. np_item (dtype T) (c ! i)) ?cols) [0..<?n]"
    unfolding T h b by simp
  with T0 dT T(1,2) show ?thesis
    by (intro exI [of _ T]) simp
qed

lemma format_generic_rows:
  assumes run: "format_generic revs K R = Inr T"
    and K: "distinct K" and len: "length R = length K"
  shows "\<exists>ds. format_generic_dataset revs K R = Inr ds
           \<and> dtype T = (if list_all np_text_or_number (concat (map snd ds)) then Unicode else Object)
           \<and> shape T = [Suc (length revs), length K]
           \<and> rows T = map (\<lambda>k. PStr (rstrip_nul k)) K
                # map (\<lambda>i. map (\<lambda>c. np_item (dtype T) (c ! i)) (map snd ds)) [0..<length revs]"
proof -
  from run obtain ds where ds: "format_generic_dataset revs K R = Inr ds"
    by (auto simp: format_generic_def split: sum.splits)
  from format_generic_of_dataset [OF ds K len] run ds show ?thesis
    by auto
qed

lemma project_fields_succeeds:
  "\<forall>(rk, dk) \<in> set pairs. map_of rv rk \<noteq> None \<and> dk \<in> fst ` set ds \<Longrightarrow>
     \<exists>ds'. project_fields rv pairs ds = Inr ds'"
proof (induction pairs arbitrary: ds)
  case Nil
  then show ?case by simp
next
  case (Cons p pairs)
  obtain rk dk where p: "p = (rk, dk)" by (cases p)
  from Cons.prems p obtain v where v: "map_of rv rk = Some v" by auto
  from Cons.prems p have "dk \<in> dom (map_of ds)"
    by (simp add: dom_map_of_conv_image_fst)
  then obtain col where col: "map_of ds dk = Some col" by auto
  let ?ds1 = "AList.update dk (col @ [strip_newlines v]) ds"
  have "fst ` set ?ds1 = fst ` set ds"
    using keys_update_present [OF col] by (metis image_set)
  with Cons.prems have "\<forall>(rk, dk) \<in> set pairs. map_of rv rk \<noteq> None \<and> dk \<in> fst ` set ?ds1"
    by auto
  from Cons.IH [OF this] show ?case
    using p v col by (simp add: dict_getitem_def)
qed

lemma project_all_succeeds:
  "\<forall>rv \<in> set revs. \<forall>(rk, dk) \<in> set pairs. map_of rv rk \<noteq> None \<Longrightarrow>
     distinct (map snd pairs) \<Longrightarrow> snd ` set pairs \<subseteq> fst ` set ds \<Longrightarrow>
     \<exists>ds'. project_all revs pairs ds = Inr ds'"
proof (induction revs arbitrary: ds)
  case Nil
  then show ?case by simp
next
  case (Cons rv revs)
  from Cons.prems(3) have "dk \<in> fst ` set ds" if "(rk, dk) \<in> set pairs" for rk dk
    using that by force
  with Cons.prems(1) have "\<forall>(rk, dk) \<in> set pairs. map_of rv rk \<noteq> None \<and> dk \<in> fst ` set ds"
    by auto
  from project_fields_succeeds [OF this] obtain ds1 where one: "project_fields rv pairs ds = Inr ds1"
    by blast
  from project_fields_cols [OF one Cons.prems(2)] have "map fst ds1 = map fst ds" by simp
  then have "fst ` set ds1 = fst ` set ds" by (metis image_set)
  with Cons.prems(3) have sub: "snd ` set pairs \<subseteq> fst ` set ds1" by simp
  from Cons.prems(1) have "\<forall>rv \<in> set revs. \<forall>(rk, dk) \<in> set pairs. map_of rv rk \<noteq> None"
    by auto
  from Cons.IH [OF this Cons.prems(2) sub] show ?case
    using one by simp
qed

lemma map_result_succeeds:
  "\<forall>x \<in> set xs. \<exists>y. f x = Inr y \<Longrightarrow> \<exists>ys. map_result f xs = Inr ys"
  by (induction xs) (auto split: sum.splits)

lemma date_cell_succeeds: "date_like v \<Longrightarrow> \<exists>c. date_cell (strip_newlines v) = Inr c"
  by (cases v) (simp_all add: date_like_def date_cell_def strip_newlines_def)

lemma date_cell_date_like: "date_cell (strip_newlines v) = Inr c \<Longrightarrow> date_like v"
  by (cases v) (simp_all add: date_like_def date_cell_def strip_newlines_def)

lemma format_generic_dataset_succeeds:
  assumes K: "distinct K" and len: "length R = length K"
    and dates: "''Datetime'' \<in> set K" "''Reply Datetime'' \<in> set K"
    and fields: "\<forall>rv \<in> set revs. \<forall>j<length K. \<exists>v. map_of rv (R ! j) = Some v
        \<and> (K ! j = ''Datetime'' \<or> K ! j = ''Reply Datetime'' \<longrightarrow> date_like v)"
  shows "\<exists>ds. format_generic_dataset revs K R = Inr ds"
proof -
  let ?init = "map (\<lambda>k. (k, [])) K :: (string \<times> pyval list) list"
  have init: "foldl (\<lambda>d key. AList.update key [] d) [] K = ?init"
    using empty_columns [of "[]" K] K by simp
  have snd_zip: "map snd (zip R K) = K" using len by simp
  then have dist: "distinct (map snd (zip R K))" using K by simp
  have "snd ` set (zip R K) = set K"
    using snd_zip by (metis image_set)
  then have sub: "snd ` set (zip R K) \<subseteq> fst ` set ?init" by force
  have present: "\<forall>rv \<in> set revs. \<forall>(rk, dk) \<in> set (zip R K). map_of rv rk \<noteq> None"
  proof (intro ballI)
    fix rv p assume rv: "rv \<in> set revs" and mem: "p \<in> set (zip R K)"
    from mem obtain j where "j < length K" "R ! j = fst p"
      using len by (auto simp: in_set_zip)
    with fields rv have "map_of rv (fst p) \<noteq> None" by force
    then show "case p of (rk, dk) \<Rightarrow> map_of rv rk \<noteq> None"
      by (simp add: case_prod_beta)
  qed
  from project_all_succeeds [OF present dist sub] obtain ds1 where
    p: "project_all revs (zip R K) ?init = Inr ds1" by blast
  note P = project_all_cols [OF p dist sub]
  have k1: "map fst ds1 = K" using P by (simp add: comp_def)
  have col: "\<exists>col. map_of ds1 key = Some col \<and> (\<forall>c \<in> set col. \<exists>y. date_cell c = Inr y)"
    if key: "key \<in> set K" "key = ''Datetime'' \<or> key = ''Reply Datetime''" for key
  proof -
    from key(1) obtain j where j: "j < length K" "K ! j = key"
      by (auto simp: in_set_conv_nth)
    then have mem: "(R ! j, key) \<in> set (zip R K)"
      using len by (metis in_set_zip fst_conv snd_conv)
    have init_j: "map_of ?init key = Some []"
      using key(1) by (simp add: map_of_map_restrict restrict_map_def)
    from P mem init_j have c1: "map_of ds1 key
        = Some (map (\<lambda>rv. strip_newlines (the (map_of rv (R ! j)))) revs)"
      by auto
    have "\<exists>y. date_cell (strip_newlines (the (map_of rv (R ! j)))) = Inr y" if "rv \<in> set revs" for rv
    proof -
      from fields that j key(2) obtain v where "map_of rv (R ! j) = Some v" "date_like v"
        by blast
      then show ?thesis using date_cell_succeeds by simp
    qed
    with c1 show ?thesis by auto
  qed
  from col [OF dates(1)] obtain a where a: "map_of ds1 ''Datetime'' = Some a"
    "\<forall>c \<in> set a. \<exists>y. date_cell c = Inr y" by auto
  from map_result_succeeds [OF a(2)] obtain a' where a': "map_result date_cell a = Inr a'"
    by blast
  let ?ds2 = "AList.update ''Datetime'' a' ds1"
  have d1: "date_column ''Datetime'' ds1 = Inr ?ds2"
    using a(1) a' by (simp add: date_column_def dict_getitem_def)
  from col [OF dates(2)] obtain b where b: "map_of ds1 ''Reply Datetime'' = Some b"
    "\<forall>c \<in> set b. \<exists>y. date_cell c = Inr y" by auto
  from map_result_succeeds [OF b(2)] obtain b' where b': "map_result date_cell b = Inr b'"
    by blast
  have "map_of ?ds2 ''Reply Datetime'' = Some b"
    using b(1) by (simp add: update_conv')
  then have "\<exists>ds. date_column ''Reply Datetime'' ?ds2 = Inr ds"
    using b' by (simp add: date_column_def dict_getitem_def)
  then show ?thesis
    using p d1 by (auto simp: format_generic_dataset_def init)
qed

lemma format_generic_succeeds:
  assumes K: "distinct K" and len: "length R = length K"
    and dates: "''Datetime'' \<in> set K" "''Reply Datetime'' \<in> set K"
    and fields: "\<forall>rv \<in> set revs. \<forall>j<length K. \<exists>v. map_of rv (R ! j) = Some v
        \<and> (K ! j = ''Datetime'' \<or> K ! j = ''Reply Datetime'' \<longrightarrow> date_like v)"
  shows "\<exists>T. format_generic revs K R = Inr T"
proof -
  from format_generic_dataset_succeeds [OF assms] obtain ds where
    "format_generic_dataset revs K R = Inr ds" by blast
  from format_generic_of_dataset [OF this K len] show ?thesis by blast
qed

text \<open>One cell of a data row of the table.\<close>

lemma format_generic_cell:
  assumes run: "format_generic revs K R = Inr T"
    and K: "distinct K" and len: "length R = length K"
    and i: "i < length revs" and j: "j < length K"
  shows "\<exists>v c. map_of (revs ! i) (R ! j) = Some v
           \<and> rows T ! Suc i ! j = np_item (dtype T) c
           \<and> (if K ! j = ''Datetime'' \<or> K ! j = ''Reply Datetime''
               then date_cell (strip_newlines v) = Inr c else c = strip_newlines v)"
proof -
  from format_generic_rows [OF run K len] obtain ds where
    ds: "format_generic_dataset revs K R = Inr ds"
    and rows: "rows T = map (\<lambda>k. PStr (rstrip_nul k)) K
                # map (\<lambda>i. map (\<lambda>c. np_item (dtype T) (c ! i)) (map snd ds)) [0..<length revs]"
    by blast
  note C = format_generic_dataset_cols [OF ds K len]
  have jds: "j < length ds" using C(1) j by (metis length_map)
  from rows i jds have cell: "rows T ! Suc i ! j = np_item (dtype T) (snd (ds ! j) ! i)"
    by simp
  from C(2) [OF j] map_of_keys_nth [OF C(1) K j] i obtain v where
    "map_of (revs ! i) (R ! j) = Some v"
    "if K ! j = ''Datetime'' \<or> K ! j = ''Reply Datetime''
       then date_cell (strip_newlines v) = Inr (snd (ds ! j) ! i)
       else snd (ds ! j) ! i = strip_newlines v"
    by auto
  with cell show ?thesis by blast
qed

lemma format_generic_header:
  assumes run: "format_generic revs K R = Inr T"
    and K: "distinct K" and len: "length R = length K"
  shows "length (rows T) = Suc (length revs)" and "rows T ! 0 = map (\<lambda>k. PStr (rstrip_nul k)) K"
    and "shape T = [Suc (length revs), length K]"
  using format_generic_rows [OF run K len] by auto

lemma np_text_or_number_strip [simp]:
  "np_text_or_number (strip_newlines v) = np_text_or_number v"
  by (cases v) (simp_all add: strip_newlines_def np_text_or_number_def)

lemma is_str_text: "is_str c \<Longrightarrow> np_text_or_number c"
  by (cases c) (simp_all add: is_str_def np_text_or_number_def)

text \<open>The element type of the table.\<close>

lemma format_generic_dtype:
  assumes run: "format_generic revs K R = Inr T"
    and K: "distinct K" and len: "length R = length K"
  shows "dtype T = (if \<forall>i<length revs. \<forall>j<length K.
                         K ! j \<noteq> ''Datetime'' \<and> K ! j \<noteq> ''Reply Datetime''
                           \<longrightarrow> np_text_or_number (the (map_of (revs ! i) (R ! j)))
                    then Unicode else Object)"
proof -
  from format_generic_rows [OF run K len] obtain ds where
    ds: "format_generic_dataset revs K R = Inr ds"
    and dt: "dtype T = (if list_all np_text_or_number (concat (map snd ds)) then Unicode else Object)"
    by blast
  note C = format_generic_dataset_cols [OF ds K len]
  have lenK: "length ds = length K" using C(1) by (metis length_map)
  have col: "\<exists>v. map_of (revs ! i) (R ! j) = Some v
       \<and> (if K ! j = ''Datetime'' \<or> K ! j = ''Reply Datetime''
            then date_cell (strip_newlines v) = Inr (snd (ds ! j) ! i)
            else snd (ds ! j) ! i = strip_newlines v)"
    and collen: "length (snd (ds ! j)) = length revs"
    if "j < length K" "i < length revs" for i j
    using C(2) [OF that(1)] map_of_keys_nth [OF C(1) K that(1)] that(2) by auto
  have "list_all np_text_or_number (concat (map snd ds))
      \<longleftrightarrow> (\<forall>j<length K. \<forall>i<length revs. np_text_or_number (snd (ds ! j) ! i))"
  proof
    assume all: "list_all np_text_or_number (concat (map snd ds))"
    show "\<forall>j<length K. \<forall>i<length revs. np_text_or_number (snd (ds ! j) ! i)"
    proof (intro allI impI)
      fix j i assume ji: "j < length K" "i < length revs"
      then have "snd (ds ! j) ! i \<in> set (snd (ds ! j))"
        using collen [OF ji] by simp
      moreover have "snd (ds ! j) \<in> set (map snd ds)"
        using ji lenK by simp
      ultimately have "snd (ds ! j) ! i \<in> set (concat (map snd ds))"
        by (metis in_set_conv_decomp set_concat UN_I)
      with all show "np_text_or_number (snd (ds ! j) ! i)"
        by (auto simp: list_all_iff)
    qed
  next
    assume cells: "\<forall>j<length K. \<forall>i<length revs. np_text_or_number (snd (ds ! j) ! i)"
    have "np_text_or_number x" if "x \<in> set (concat (map snd ds))" for x
    proof -
      from that obtain d where d: "d \<in> set ds" "x \<in> set (snd d)" by auto
      then obtain j where j: "j < length ds" "d = ds ! j" by (auto simp: in_set_conv_nth)
      from d(2) obtain i where i: "i < length (snd d)" "x = snd d ! i" by (auto simp: in_set_conv_nth)
      have jK: "j < length K" using j lenK by simp
      have "length (snd d) = length revs"
        using C(2) [OF jK] map_of_keys_nth [OF C(1) K jK] j by auto
      with cells jK i j show ?thesis by simp
    qed
    then show "list_all np_text_or_number (concat (map snd ds))"
      by (simp add: list_all_iff)
  qed
  also have "\<dots> \<longleftrightarrow> (\<forall>i<length revs. \<forall>j<length K.
                         K ! j \<noteq> ''Datetime'' \<and> K ! j \<noteq> ''Reply Datetime''
                           \<longrightarrow> np_text_or_number (the (map_of (revs ! i) (R ! j))))"
  proof (intro iffI allI impI)
    fix i j assume cells: "\<forall>j<length K. \<forall>i<length revs. np_text_or_number (snd (ds ! j) ! i)"
      and ij: "i < length revs" "j < length K" "K ! j \<noteq> ''Datetime'' \<and> K ! j \<noteq> ''Reply Datetime''"
    from col [OF ij(2,1)] ij(3) obtain v where "map_of (revs ! i) (R ! j) = Some v"
      "snd (ds ! j) ! i = strip_newlines v" by auto
    with cells ij show "np_text_or_number (the (map_of (revs ! i) (R ! j)))"
      by (metis np_text_or_number_strip option.sel)
  next
    fix j i assume raw: "\<forall>i<length revs. \<forall>j<length K.
                         K ! j \<noteq> ''Datetime'' \<and> K ! j \<noteq> ''Reply Datetime''
                           \<longrightarrow> np_text_or_number (the (map_of (revs ! i) (R ! j)))"
      and ji: "j < length K" "i < length revs"
    from col [OF ji] obtain v where v: "map_of (revs ! i) (R ! j) = Some v"
      "if K ! j = ''Datetime'' \<or> K ! j = ''Reply Datetime''
            then date_cell (strip_newlines v) = Inr (snd (ds ! j) ! i)
            else snd (ds ! j) ! i = strip_newlines v" by auto
    show "np_text_or_number (snd (ds ! j) ! i)"
    proof (cases "K ! j = ''Datetime'' \<or> K ! j = ''Reply Datetime''")
      case True
      with v(2) show ?thesis by (simp add: date_cell_is_str is_str_text)
    next
      case False
      with raw ji have "np_text_or_number (the (map_of (revs ! i) (R ! j)))"
        by blast
      with False v show ?thesis by simp
    qed
  qed
  finally show ?thesis using dt by simp
qed

lemma py_replace_char_delete: "py_replace [c] [] s = filter (\<lambda>x. x \<noteq> c) s"
  by (induction s) auto

lemma strip_newlines_PStr:
  "strip_newlines (PStr s) = PStr (filter (\<lambda>c. c \<noteq> CHR 0x0A) s)"
  by (simp add: strip_newlines_def py_replace_char_delete)

lemma set_rstrip_nul: "set (rstrip_nul s) \<subseteq> set s"
  by (auto simp: rstrip_nul_def dest: set_dropWhileD)

lemma rstrip_nul_snoc: "c \<noteq> CHR 0x00 \<Longrightarrow> rstrip_nul (s @ [c]) = s @ [c]"
  by (simp add: rstrip_nul_def)

lemma digit_char_digit: "is_digit (digit_char n)"
proof -
  have "n mod 10 < length ''0123456789''" by simp
  then show ?thesis
    unfolding digit_char_def is_digit_def by (rule nth_mem)
qed

lemma is_digit_not_special: "is_digit c \<Longrightarrow> c \<noteq> CHR 0x00 \<and> c \<noteq> CHR 0x0A"
  by (auto simp: is_digit_def)

lemma decimal_digits: "list_all is_digit (decimal n)"
proof (induction n rule: decimal.induct)
  case (1 n)
  show ?case
  proof (cases "n < 10")
    case True
    then show ?thesis by (subst decimal.simps) (simp add: digit_char_digit)
  next
    case False
    with 1 show ?thesis by (subst decimal.simps) (simp add: digit_char_digit)
  qed
qed

lemma decimal_snoc: "\<exists>ds. decimal n = ds @ [digit_char (n mod 10)]"
  by (subst decimal.simps) auto

lemma length_decimal: "n < 10 ^ w \<Longrightarrow> 0 < w \<Longrightarrow> length (decimal n) \<le> w"
proof (induction n arbitrary: w rule: decimal.induct)
  case (1 n)
  show ?case
  proof (cases "n < 10")
    case True
    with 1(3) show ?thesis by (subst decimal.simps) simp
  next
    case False
    have "w \<noteq> 0" "w \<noteq> 1" using 1(2,3) False by auto
    then obtain w' where w': "w = Suc w'" "0 < w'" by (cases w) auto
    with 1(2) have "n div 10 < 10 ^ w'" by (simp add: less_mult_imp_div_less mult.commute)
    from 1(1) [OF False this w'(2)] False w' show ?thesis
      by (subst decimal.simps) simp
  qed
qed

lemma decimal_not_Nil: "decimal n \<noteq> []"
  using decimal_snoc [of n] by auto

lemma is_digit_zero: "is_digit CHR ''0''"
  by (simp add: is_digit_def)

lemma zfill_decimal:
  assumes "n < 10 ^ w" "0 < w"
  shows "length (zfill w (decimal n)) = w" and "list_all is_digit (zfill w (decimal n))"
proof -
  from length_decimal [OF assms] show "length (zfill w (decimal n)) = w"
    by (simp add: zfill_def)
  have "list_all is_digit (replicate (w - length (decimal n)) CHR ''0'')"
    by (simp add: list_all_iff is_digit_zero)
  then show "list_all is_digit (zfill w (decimal n))"
    using decimal_digits [of n] by (simp add: zfill_def)
qed

lemma decimal_one_digit: "n < 10 \<Longrightarrow> decimal n = [''0123456789'' ! n]"
  by (subst decimal.simps) (simp add: digit_char_def)

lemma decimal_more_digits:
  "10 \<le> n \<Longrightarrow> decimal n = decimal (n div 10) @ [''0123456789'' ! (n mod 10)]"
  by (subst decimal.simps) (simp add: digit_char_def)

lemma decimal_two_digits:
  assumes "10 \<le> n" "n < 100"
  shows "decimal n = [''0123456789'' ! (n div 10), ''0123456789'' ! (n mod 10)]"
proof -
  from assms have "n div 10 < 10" by simp
  then show ?thesis
    using assms(1) by (simp add: decimal_more_digits decimal_one_digit)
qed

lemma decimal_three_digits:
  assumes "100 \<le> n" "n < 1000"
  shows "decimal n = [''0123456789'' ! (n div 100), ''0123456789'' ! (n div 10 mod 10),
                      ''0123456789'' ! (n mod 10)]"
proof -
  from assms have "10 \<le> n div 10" "n div 10 < 100" "10 \<le> n" by simp_all
  then show ?thesis
    by (simp add: decimal_more_digits [of n] decimal_two_digits div_mult2_eq [symmetric])
qed

lemma decimal_four_digits:
  assumes "1000 \<le> n" "n < 10000"
  shows "decimal n = [''0123456789'' ! (n div 1000), ''0123456789'' ! (n div 100 mod 10),
                      ''0123456789'' ! (n div 10 mod 10), ''0123456789'' ! (n mod 10)]"
proof -
  from assms have "100 \<le> n div 10" "n div 10 < 1000" "10 \<le> n" by simp_all
  then show ?thesis
    by (simp add: decimal_more_digits [of n] decimal_three_digits div_mult2_eq [symmetric])
qed

lemma decimal_year_digits: "y < 10000 \<Longrightarrow> decimal y = year_digits y"
  by (simp add: year_digits_def decimal_one_digit decimal_two_digits decimal_three_digits
      decimal_four_digits)

lemma zfill_two_digits: "n < 100 \<Longrightarrow> zfill 2 (decimal n) = two_digits n"
  by (cases "n < 10")
     (simp_all add: zfill_def two_digits_def decimal_one_digit decimal_two_digits)

lemma strftime_dmY_digits:
  assumes "valid_datetime d"
  shows "strftime_dmY d =
           two_digits (dt_day d) @ ''/'' @ two_digits (dt_month d) @ ''/'' @ year_digits (dt_year d)"
proof -
  from assms have r: "dt_day d < 100" "dt_month d < 100" "dt_year d < 10000"
    by (simp_all add: valid_datetime_def)
  have "zfill 2 (decimal (dt_day d)) = two_digits (dt_day d)"
    by (rule zfill_two_digits) (rule r)
  moreover have "zfill 2 (decimal (dt_month d)) = two_digits (dt_month d)"
    by (rule zfill_two_digits) (rule r)
  moreover have "decimal (dt_year d) = year_digits (dt_year d)"
    by (rule decimal_year_digits) (rule r)
  ultimately show ?thesis
    by (simp only: strftime_dmY_def)
qed

lemma length_year_digits:
  "length (year_digits y) = (if y < 10 then 1 else if y < 100 then 2 else if y < 1000 then 3 else 4)"
  by (simp add: year_digits_def)

lemma strftime_dmY_format:
  assumes "valid_datetime d"
  shows "day_month_year_format (strftime_dmY d) \<longleftrightarrow> 1000 \<le> dt_year d"
proof (cases "1000 \<le> dt_year d")
  case True
  from assms have r: "dt_day d < 10 ^ 2" "dt_month d < 10 ^ 2" "dt_year d < 10000"
    by (auto simp: valid_datetime_def)
  then have l: "length (zfill 2 (decimal (dt_day d))) = 2"
    "list_all is_digit (zfill 2 (decimal (dt_day d)))"
    "length (zfill 2 (decimal (dt_month d))) = 2"
    "list_all is_digit (zfill 2 (decimal (dt_month d)))"
    by (simp_all add: zfill_decimal)
  from True r(3) have "length (decimal (dt_year d)) = 4"
    by (simp add: decimal_year_digits length_year_digits)
  with l have "day_month_year_format (strftime_dmY d)"
    using decimal_digits [of "dt_year d"]
    by (simp add: day_month_year_format_def strftime_dmY_def nth_append)
  with True show ?thesis by simp
next
  case False
  with assms have "length (strftime_dmY d) \<noteq> 10"
    by (simp add: strftime_dmY_digits two_digits_def length_year_digits)
  with False show ?thesis by (simp add: day_month_year_format_def)
qed

lemma rstrip_nul_strftime: "rstrip_nul (strftime_dmY d) = strftime_dmY d"
proof -
  obtain ds where "decimal (dt_year d) = ds @ [digit_char (dt_year d mod 10)]"
    using decimal_snoc by blast
  then have "strftime_dmY d = (zfill 2 (decimal (dt_day d)) @ ''/'' @ zfill 2 (decimal (dt_month d))
      @ ''/'' @ ds) @ [digit_char (dt_year d mod 10)]"
    by (simp add: strftime_dmY_def)
  then obtain s where "strftime_dmY d = s @ [digit_char (dt_year d mod 10)]"
    by blast
  then show ?thesis
    using rstrip_nul_snoc is_digit_not_special [OF digit_char_digit] by simp
qed

lemma rstrip_nul_Nil: "rstrip_nul [] = []"
  by (simp add: rstrip_nul_def)

lemma py_str_int_chars: "c \<in> set (py_str_int n) \<Longrightarrow> is_digit c \<or> c = CHR ''-''"
  using decimal_digits by (auto simp: py_str_int_def list_all_iff split: if_splits)

lemma platform_columns_ok:
  "(K, R) \<in> platform_columns \<Longrightarrow> distinct K \<and> length R = length K"
  by (auto simp: platform_columns_def appstore_dataset_cols_def appstore_revs_cols_def
      playstore_dataset_cols_def playstore_revs_cols_def)

lemma platform_columns_names:
  "(K, R) \<in> platform_columns \<Longrightarrow>
     K ! 0 = ''Datetime'' \<and> K ! 1 = ''Username'' \<and> K ! 2 = ''Review'' \<and> K ! 3 = ''Rating''
     \<and> K ! 4 = ''Reply'' \<and> K ! 5 = ''Reply Datetime'' \<and> 6 \<le> length K
     \<and> (6 < length K \<longrightarrow> K ! 6 = ''Thumbs Up'' \<and> length K = 7)"
  by (auto simp: platform_columns_def appstore_dataset_cols_def playstore_dataset_cols_def)

lemma format_generic_dataset_empty:
  assumes K: "distinct K" and dates: "''Datetime'' \<in> set K" "''Reply Datetime'' \<in> set K"
  shows "format_generic_dataset [] K R = Inr (map (\<lambda>k. (k, [])) K)"
proof -
  let ?init = "map (\<lambda>k. (k, [])) K :: (string \<times> pyval list) list"
  have init: "foldl (\<lambda>d key. AList.update key [] d) [] K = ?init"
    using empty_columns [of "[]" K] K by simp
  have look: "map_of ?init key = Some []" if "key \<in> set K" for key
    using that by (simp add: map_of_map_restrict restrict_map_def)
  have col: "date_column key ?init = Inr ?init" if "key \<in> set K" for key
    using look [OF that] by (simp add: date_column_def dict_getitem_def update_triv)
  show ?thesis
    by (simp add: format_generic_dataset_def init col dates)
qed

lemma format_generic_empty:
  assumes K: "distinct K" and len: "length R = length K"
    and dates: "''Datetime'' \<in> set K" "''Reply Datetime'' \<in> set K"
  shows "format_generic [] K R
           = Inr \<lparr>dtype = Unicode, shape = [1, length K], rows = [map (\<lambda>k. PStr (rstrip_nul k)) K]\<rparr>"
proof -
  note ds = format_generic_dataset_empty [OF K dates, of R]
  from format_generic_of_dataset [OF ds K len] obtain T where
    T: "format_generic [] K R = Inr T" "dtype T = Unicode" "shape T = [1, length K]"
    "rows T = [map (\<lambda>k. PStr (rstrip_nul k)) K]"
    by (auto simp: list_all_iff)
  then show ?thesis by (cases T) simp
qed

lemma rstrip_nul_names:
  "rstrip_nul ''Datetime'' = ''Datetime''" "rstrip_nul ''Username'' = ''Username''"
  "rstrip_nul ''Review'' = ''Review''" "rstrip_nul ''Rating'' = ''Rating''"
  "rstrip_nul ''Reply'' = ''Reply''" "rstrip_nul ''Reply Datetime'' = ''Reply Datetime''"
  "rstrip_nul ''Thumbs Up'' = ''Thumbs Up''"
  by (simp_all add: rstrip_nul_def)

lemma projectable_fields:
  assumes "length R = length K" "projectable K R rv" "j < length K"
  shows "\<exists>v. map_of rv (R ! j) = Some v
           \<and> (K ! j = ''Datetime'' \<or> K ! j = ''Reply Datetime'' \<longrightarrow> date_like v)"
proof -
  from assms(1,3) have "(K ! j, R ! j) \<in> set (zip K R)"
    by (metis in_set_zip fst_conv snd_conv)
  with assms(2) show ?thesis
    by (auto simp: projectable_def list_all_iff split: option.splits)
qed

lemma format_generic_total:
  assumes cfg: "(K, R) \<in> platform_columns" and ok: "list_all (projectable K R) revs"
  shows "\<exists>T. format_generic revs K R = Inr T"
proof -
  from platform_columns_ok [OF cfg] have K: "distinct K" and len: "length R = length K"
    by simp_all
  from platform_columns_names [OF cfg] have names: "K ! 0 = ''Datetime''" "K ! 5 = ''Reply Datetime''"
    and l: "0 < length K" "5 < length K"
    by auto
  have "K ! 0 \<in> set K" "K ! 5 \<in> set K"
    by (rule nth_mem, rule l)+
  then have "''Datetime'' \<in> set K" "''Reply Datetime'' \<in> set K"
    unfolding names .
  moreover have "\<forall>rv \<in> set revs. \<forall>j<length K. \<exists>v. map_of rv (R ! j) = Some v
        \<and> (K ! j = ''Datetime'' \<or> K ! j = ''Reply Datetime'' \<longrightarrow> date_like v)"
    using ok projectable_fields [OF len] by (auto simp: list_all_iff)
  ultimately show ?thesis
    using format_generic_succeeds [OF K len] by blast
qed

lemma np_item_PStr_no_newline:
  "CHR 0x0A \<notin> set s \<Longrightarrow> np_item t (PStr s) = PStr u \<Longrightarrow> CHR 0x0A \<notin> set u"
  using set_rstrip_nul [of s] by (auto simp: np_item_def split: if_splits)

lemma np_item_text_no_newline:
  assumes "np_item t (strip_newlines v) = PStr u"
  shows "CHR 0x0A \<notin> set u"
proof (cases v)
  case (PStr s)
  have "CHR 0x0A \<notin> set (filter (\<lambda>c. c \<noteq> CHR 0x0A) s)" by simp
  moreover from assms PStr have "np_item t (PStr (filter (\<lambda>c. c \<noteq> CHR 0x0A) s)) = PStr u"
    by (simp add: strip_newlines_PStr)
  ultimately show ?thesis
    by (rule np_item_PStr_no_newline)
next
  case (PInt n)
  with assms have "t = Unicode" "u = py_str_int n"
    by (auto simp: np_item_def strip_newlines_def split: if_splits)
  then show ?thesis
    using py_str_int_chars [of "CHR 0x0A" n] by (auto simp: is_digit_def)
next
  case (PBool b)
  with assms show ?thesis
    by (auto simp: np_item_def strip_newlines_def split: if_splits)
qed (use assms in \<open>auto simp: np_item_def strip_newlines_def split: if_splits\<close>)

lemma not_date_column:
  assumes "(K, R) \<in> platform_columns" "j < length K" "j \<noteq> 0" "j \<noteq> 5"
  shows "K ! j \<noteq> ''Datetime'' \<and> K ! j \<noteq> ''Reply Datetime''"
proof -
  from platform_columns_ok [OF assms(1)] have d: "distinct K" by simp
  from platform_columns_names [OF assms(1)] have n: "K ! 0 = ''Datetime''" "K ! 5 = ''Reply Datetime''"
    "6 \<le> length K" by simp_all
  from n(3) have l: "0 < length K" "5 < length K" by auto
  have "K ! j \<noteq> K ! 0"
    using nth_eq_iff_index_eq [OF d assms(2) l(1)] assms(3) by simp
  moreover have "K ! j \<noteq> K ! 5"
    using nth_eq_iff_index_eq [OF d assms(2) l(2)] assms(4) by simp
  ultimately show ?thesis using n by simp
qed


lemma platform_columns_members:
  "(appstore_dataset_cols, appstore_revs_cols) \<in> platform_columns"
  "(playstore_dataset_cols, playstore_revs_cols) \<in> platform_columns"
  by (simp_all add: platform_columns_def)

lemma np_item_date:
  assumes "date_cell (strip_newlines v) = Inr c"
  shows "np_item t c = PStr (case v of PDatetime d \<Rightarrow> strftime_dmY d | _ \<Rightarrow> [])"
  using assms
  by (cases v)
     (auto simp: date_cell_def strip_newlines_def np_item_def rstrip_nul_Nil rstrip_nul_strftime)

lemma strftime_dmY_example:
  "strftime_dmY \<lparr>dt_year = 2023, dt_month = 3, dt_day = 5, dt_hour = hh, dt_minute = mm,
                  dt_second = ss, dt_microsecond = us\<rparr> = ''05/03/2023''"
  by (simp add: strftime_dmY_def zfill_def decimal.simps digit_char_def)


lemmas eval_defs =
  format_playstore_reviews_def format_generic_def
  format_generic_dataset_def playstore_dataset_cols_def playstore_revs_cols_def
  appstore_dataset_cols_def appstore_revs_cols_def
  date_column_def dict_getitem_def date_cell_def strip_newlines_def
  np_array_def np_T_def np_concatenate_def np_result_dtype_def np_promote_def np_cast_def
  np_item_def np_text_or_number_def is_str_def rstrip_nul_def
  strftime_dmY_def zfill_def decimal.simps digit_char_def py_str_int_def

lemma playstore_sample_table:
  "format_generic [playstore_sample] playstore_dataset_cols playstore_revs_cols
   = Inr \<lparr>dtype = Object, shape = [2, 7],
          rows = [[PStr ''Datetime'', PStr ''Username'', PStr ''Review'', PStr ''Rating'',
                   PStr ''Reply'', PStr ''Reply Datetime'', PStr ''Thumbs Up''],
                  [PStr ''05/03/2023'', PStr ''ab'', PStr ''xy'', PInt 4, PNone, PStr [],
                   PInt 12]]\<rparr>"
  by (simp add: eval_defs playstore_sample_def)

lemma playstore_sample_replied_table:
  "format_generic [playstore_sample_replied] playstore_dataset_cols playstore_revs_cols
   = Inr \<lparr>dtype = Unicode, shape = [2, 7],
          rows = [[PStr ''Datetime'', PStr ''Username'', PStr ''Review'', PStr ''Rating'',
                   PStr ''Reply'', PStr ''Reply Datetime'', PStr ''Thumbs Up''],
                  [PStr ''05/03/2023'', PStr ''bob'', PStr ''ok'', PStr ''4'', PStr ''thx'',
                   PStr ''06/03/2023'', PStr ''12'']]\<rparr>"
  by (simp add: eval_defs playstore_sample_replied_def)

lemma playstore_sample_fields:
  "project_fields playstore_sample (zip playstore_revs_cols playstore_dataset_cols)
     [(''Datetime'', []), (''Username'', []), (''Review'', []), (''Rating'', []), (''Reply'', []),
      (''Reply Datetime'', []), (''Thumbs Up'', [])]
   = Inr [(''Datetime'', [PDatetime \<lparr>dt_year = 2023, dt_month = 3, dt_day = 5, dt_hour = 10,
                                        dt_minute = 30, dt_second = 0, dt_microsecond = 0\<rparr>]),
          (''Username'', [PStr ''ab'']), (''Review'', [PStr ''xy'']), (''Rating'', [PInt 4]),
          (''Reply'', [PNone]), (''Reply Datetime'', [PNone]), (''Thumbs Up'', [PInt 12])]"
  by (simp add: eval_defs playstore_sample_def)

lemma playstore_sample_early_table:
  "format_generic [playstore_sample_early] playstore_dataset_cols playstore_revs_cols
   = Inr \<lparr>dtype = Object, shape = [2, 7],
          rows = [[PStr ''Datetime'', PStr ''Username'', PStr ''Review'', PStr ''Rating'',
                   PStr ''Reply'', PStr ''Reply Datetime'', PStr ''Thumbs Up''],
                  [PStr ''02/01/5'', PStr ''eve'', PStr ''old'', PInt 3, PNone, PStr [],
                   PInt 0]]\<rparr>"
  by (simp add: eval_defs playstore_sample_early_def)

section \<open>Facts about the App Store preparation\<close>

lemma preprocess_no_response:
  assumes "map_of rv ''title'' = Some (PStr title)" "map_of rv ''review'' = Some (PStr review)"
    and "map_of rv ''developerResponse'' = None"
  shows "preprocess_appstore_review strptime rv =
           (AList.update ''repliedAt'' (PStr [])
              (AList.update ''replyContent'' (PStr [])
                 (AList.update ''review'' (PStr (title @ review)) rv)), None)"
  using assms
  by (simp add: preprocess_appstore_review_def dict_getitem_def py_add_def update_conv')

lemma preprocess_with_response:
  assumes "map_of rv ''title'' = Some (PStr title)" "map_of rv ''review'' = Some (PStr review)"
    and "map_of rv ''developerResponse'' = Some (PDict resp)"
    and "map_of resp ''body'' = Some body" "map_of resp ''modified'' = Some (PStr modified)"
    and "strptime modified ''%Y-%m-%dT%H:%M:%SZ'' = Inr d"
  shows "preprocess_appstore_review strptime rv =
           (AList.update ''repliedAt'' (PDatetime d)
              (AList.update ''replyContent'' body
                 (AList.update ''review'' (PStr (title @ review)) rv)), None)"
  using assms
  by (simp add: preprocess_appstore_review_def dict_getitem_def py_add_def update_conv'
      py_getitem_def py_strptime_def)

lemma np_item_plain_text:
  "rstrip_nul s = s \<Longrightarrow> CHR 0x0A \<notin> set s \<Longrightarrow> np_item t (strip_newlines (PStr s)) = PStr s"
proof -
  assume a: "rstrip_nul s = s" "CHR 0x0A \<notin> set s"
  then have "filter (\<lambda>c. c \<noteq> CHR 0x0A) s = s"
    by (auto simp: filter_id_conv)
  with a(1) show ?thesis
    by (simp add: strip_newlines_PStr np_item_def)
qed

lemma appstore_great_app:
  assumes "map_of rv ''title'' = Some (PStr ''Great'')" "map_of rv ''review'' = Some (PStr '' app'')"
    and "map_of rv ''developerResponse'' = None" and "map_of rv ''rating'' = Some (PInt 5)"
    and "map_of rv ''userName'' = Some u" and "map_of rv ''date'' = Some dv" and "date_like dv"
  shows "\<exists>rv' T. formate_appstore_reviews strptime [rv] = ([rv'], Inr T)
           \<and> rows T ! 1 ! 2 = PStr ''Great app'' \<and> rows T ! 1 ! 4 = PStr [] \<and> rows T ! 1 ! 5 = PStr []"
proof -
  let ?rv' = "AList.update ''repliedAt'' (PStr [])
              (AList.update ''replyContent'' (PStr [])
                 (AList.update ''review'' (PStr ''Great app'') rv))"
  let ?K = appstore_dataset_cols and ?R = appstore_revs_cols
  have pre: "preprocess_appstore_review strptime rv = (?rv', None)"
    using preprocess_no_response [OF assms(1,2,3)] by simp
  have look: "map_of ?rv' ''date'' = Some dv" "map_of ?rv' ''userName'' = Some u"
    "map_of ?rv' ''review'' = Some (PStr ''Great app'')" "map_of ?rv' ''rating'' = Some (PInt 5)"
    "map_of ?rv' ''replyContent'' = Some (PStr [])" "map_of ?rv' ''repliedAt'' = Some (PStr [])"
    using assms by (simp_all add: update_conv')
  have cfg: "(?K, ?R) \<in> platform_columns" by (rule platform_columns_members)
  note KR = platform_columns_ok [OF cfg]
  have "projectable ?K ?R ?rv'"
    unfolding projectable_def appstore_dataset_cols_def appstore_revs_cols_def
    using look assms(7) by (simp add: date_like_def)
  then have "list_all (projectable ?K ?R) [?rv']" by simp
  from format_generic_total [OF cfg this] obtain T where T: "format_generic [?rv'] ?K ?R = Inr T"
    by blast
  have R: "?R ! 2 = ''review''" "?R ! 4 = ''replyContent''" "?R ! 5 = ''repliedAt''"
    and K: "?K ! 2 = ''Review''" "?K ! 4 = ''Reply''" "?K ! 5 = ''Reply Datetime''" "length ?K = 6"
    by (simp_all add: appstore_revs_cols_def appstore_dataset_cols_def)
  have c2: "rows T ! 1 ! 2 = PStr ''Great app''"
    using format_generic_cell [OF T KR [THEN conjunct1] KR [THEN conjunct2], of 0 2] look R K
    by (simp add: np_item_plain_text rstrip_nul_def)
  have c4: "rows T ! 1 ! 4 = PStr []"
    using format_generic_cell [OF T KR [THEN conjunct1] KR [THEN conjunct2], of 0 4] look R K
    by (simp add: np_item_plain_text rstrip_nul_def)
  have c5: "rows T ! 1 ! 5 = PStr []"
    using format_generic_cell [OF T KR [THEN conjunct1] KR [THEN conjunct2], of 0 5] look R K
    by (auto simp: np_item_date)
  have "formate_appstore_reviews strptime [rv] = ([?rv'], Inr T)"
    by (simp add: formate_appstore_reviews_def pre T)
  with c2 c4 c5 show ?thesis by blast
qed


lemmas appstore_eval_defs =
  formate_appstore_reviews_def preprocess_appstore_review_def py_add_def py_getitem_def
  py_strptime_def

section \<open>Facts about the store of reviews\<close>

text \<open>
  Every step of the formatting reads a review through \<open>map_of\<close> only, so two records
  with the same fields in another order are treated alike.
\<close>

lemma dict_getitem_cong: "map_of r1 = map_of r2 \<Longrightarrow> dict_getitem r1 k = dict_getitem r2 k"
  by (simp add: dict_getitem_def)

lemma preprocess_appstore_review_cong:
  assumes "map_of r1 = map_of r2"
  shows "snd (preprocess_appstore_review strptime r1) = snd (preprocess_appstore_review strptime r2)
       \<and> map_of (fst (preprocess_appstore_review strptime r1))
           = map_of (fst (preprocess_appstore_review strptime r2))"
  using assms
  by (auto simp: preprocess_appstore_review_def dict_getitem_def update_conv' Let_def
      split: option.splits sum.splits)

lemma project_fields_cong:
  "map_of r1 = map_of r2 \<Longrightarrow> project_fields r1 pairs ds = project_fields r2 pairs ds"
  by (induction pairs arbitrary: ds) (auto simp: dict_getitem_def split: sum.splits option.splits)

lemma project_all_cong:
  "list_all2 (\<lambda>r1 r2. map_of r1 = map_of r2) xs ys \<Longrightarrow>
     project_all xs pairs ds = project_all ys pairs ds"
proof (induction xs ys arbitrary: ds rule: list_all2_induct)
  case Nil
  then show ?case by simp
next
  case (Cons x xs y ys)
  from Cons.hyps(1) have "project_fields x pairs ds = project_fields y pairs ds"
    by (rule project_fields_cong)
  with Cons.IH show ?case by (simp split: sum.splits)
qed

lemma format_generic_cong:
  "list_all2 (\<lambda>r1 r2. map_of r1 = map_of r2) xs ys \<Longrightarrow>
     format_generic xs K R = format_generic ys K R"
  by (simp add: format_generic_def format_generic_dataset_def project_all_cong [of xs ys])

text \<open>
  The loop over a batch of addresses, run on two stores: \<open>p\<close> renames the addresses
  of the first batch to those of the second, and the records at corresponding addresses
  have the same fields. The loop then raises the same exception or none, and leaves
  records with the same fields at corresponding addresses.
\<close>

lemma preprocess_appstore_store_cong:
  assumes "inj_on p S" and "set batch \<subseteq> S"
    and "\<forall>a \<in> S. map_of (h1 a) = map_of (h2 (p a))"
  shows "snd (preprocess_appstore_store strptime h1 batch)
           = snd (preprocess_appstore_store strptime h2 (map p batch))
       \<and> (\<forall>a \<in> S. map_of (fst (preprocess_appstore_store strptime h1 batch) a)
                    = map_of (fst (preprocess_appstore_store strptime h2 (map p batch)) (p a)))"
  using assms(2,3)
proof (induction batch arbitrary: h1 h2)
  case Nil
  then show ?case by simp
next
  case (Cons a batch)
  from Cons.prems have a: "a \<in> S" and sub: "set batch \<subseteq> S"
    and eq: "map_of (h1 a) = map_of (h2 (p a))" by simp_all
  obtain r1 e1 where r1: "preprocess_appstore_review strptime (h1 a) = (r1, e1)"
    by (cases "preprocess_appstore_review strptime (h1 a)")
  obtain r2 e2 where r2: "preprocess_appstore_review strptime (h2 (p a)) = (r2, e2)"
    by (cases "preprocess_appstore_review strptime (h2 (p a))")
  from preprocess_appstore_review_cong [OF eq, of strptime] r1 r2
  have e: "e2 = e1" and r: "map_of r1 = map_of r2" by simp_all
  define g1 where "g1 = h1(a := r1)"
  define g2 where "g2 = h2(p a := r2)"
  have upd: "\<forall>x \<in> S. map_of (g1 x) = map_of (g2 (p x))"
  proof
    fix x assume x: "x \<in> S"
    show "map_of (g1 x) = map_of (g2 (p x))"
    proof (cases "x = a")
      case True
      with r show ?thesis by (simp add: g1_def g2_def)
    next
      case False
      with assms(1) x a have "p x \<noteq> p a" by (auto dest: inj_onD)
      with False Cons.prems(2) x show ?thesis by (simp add: g1_def g2_def)
    qed
  qed
  have step1: "preprocess_appstore_store strptime h1 (a # batch)
      = (case e1 of Some err \<Rightarrow> (g1, Some err)
         | None \<Rightarrow> preprocess_appstore_store strptime g1 batch)"
    by (simp add: r1 g1_def split: option.splits)
  have step2: "preprocess_appstore_store strptime h2 (map p (a # batch))
      = (case e1 of Some err \<Rightarrow> (g2, Some err)
         | None \<Rightarrow> preprocess_appstore_store strptime g2 (map p batch))"
    by (simp add: r2 e g2_def split: option.splits)
  show ?case
  proof (cases e1)
    case None
    from Cons.IH [OF sub upd] show ?thesis
      unfolding step1 step2 None by simp
  next
    case (Some err)
    from upd show ?thesis
      unfolding step1 step2 Some by simp
  qed
qed

text \<open>
  The loop writes only at the addresses of the batch; on a batch without repetition it is
  the loop over the list of records.
\<close>

lemma preprocess_appstore_store_frame:
  "a \<notin> set batch \<Longrightarrow> fst (preprocess_appstore_store strptime h batch) a = h a"
  by (induction batch arbitrary: h) (auto split: prod.splits option.splits)

lemma preprocess_appstore_store_distinct:
  assumes "distinct batch"
  shows "preprocess_appstore_reviews strptime (map h batch)
           = (map (fst (preprocess_appstore_store strptime h batch)) batch,
              snd (preprocess_appstore_store strptime h batch))"
  using assms
proof (induction batch arbitrary: h)
  case Nil
  then show ?case by simp
next
  case (Cons a batch)
  from Cons.prems have na: "a \<notin> set batch" and d: "distinct batch" by simp_all
  obtain r e where r: "preprocess_appstore_review strptime (h a) = (r, e)"
    by (cases "preprocess_appstore_review strptime (h a)")
  define g where "g = h(a := r)"
  have same: "map g batch = map h batch"
    using na by (auto simp: g_def intro: map_cong)
  have step: "preprocess_appstore_store strptime h (a # batch)
      = (case e of Some err \<Rightarrow> (g, Some err)
         | None \<Rightarrow> preprocess_appstore_store strptime g batch)"
    by (simp add: r g_def split: option.splits)
  have ga: "g a = r" by (simp add: g_def)
  show ?case
  proof (cases e)
    case None
    have "fst (preprocess_appstore_store strptime g batch) a = r"
      using preprocess_appstore_store_frame [OF na, of strptime g] ga by simp
    with Cons.IH [OF d, of g] show ?thesis
      unfolding step by (simp add: r same None)
  next
    case (Some err)
    show ?thesis
      unfolding step by (simp add: r Some same ga)
  qed
qed

lemma formate_appstore_reviews_store_fst:
  "fst (formate_appstore_reviews_store strptime h batch)
     = fst (preprocess_appstore_store strptime h batch)"
  by (cases "preprocess_appstore_store strptime h batch")
     (auto simp: formate_appstore_reviews_store_def split: option.splits)

lemma formate_appstore_reviews_store_cong:
  assumes "inj_on p (set batch)"
    and "\<forall>a \<in> set batch. map_of (h1 a) = map_of (h2 (p a))"
  shows "snd (formate_appstore_reviews_store strptime h1 batch)
           = snd (formate_appstore_reviews_store strptime h2 (map p batch))"
proof -
  let ?A = "preprocess_appstore_store strptime h1 batch"
  let ?B = "preprocess_appstore_store strptime h2 (map p batch)"
  from preprocess_appstore_store_cong [OF assms(1) subset_refl assms(2), of strptime]
  have e: "snd ?A = snd ?B" and m: "\<forall>a \<in> set batch. map_of (fst ?A a) = map_of (fst ?B (p a))"
    by simp_all
  from m have "list_all2 (\<lambda>r1 r2. map_of r1 = map_of r2) (map (fst ?A) batch) (map (fst ?B) (map p batch))"
    by (simp add: list_all2_map1 list_all2_map2 list_all2_same)
  then have "format_generic (map (fst ?A) batch) appstore_dataset_cols appstore_revs_cols
      = format_generic (map (fst ?B) (map p batch)) appstore_dataset_cols appstore_revs_cols"
    by (rule format_generic_cong)
  with e show ?thesis
    by (cases ?A; cases ?B) (auto simp: formate_appstore_reviews_store_def split: option.splits)
qed

lemma appstore_sample_reordered_fields: "map_of appstore_sample_reordered = map_of appstore_sample"
  by (rule ext) (simp add: appstore_sample_def appstore_sample_reordered_def)

lemma appstore_store_run:
  "snd (formate_appstore_reviews_store sample_strptime
          (\<lambda>a. if a = 0 then appstore_sample
                else if a = 10 then appstore_sample_reordered else appstore_sample_replied)
          [0, 0, 4::nat])
   = Inr \<lparr>dtype = Unicode, shape = [4, 6],
          rows = [[PStr ''Datetime'', PStr ''Username'', PStr ''Review'', PStr ''Rating'',
                   PStr ''Reply'', PStr ''Reply Datetime''],
                  [PStr ''05/03/2023'', PStr ''bob'', PStr ''GreatGreat app'', PStr ''5'', PStr [],
                   PStr []],
                  [PStr ''05/03/2023'', PStr ''bob'', PStr ''GreatGreat app'', PStr ''5'', PStr [],
                   PStr []],
                  [PStr ''05/03/2023'', PStr ''bob'', PStr ''Great app'', PStr ''5'',
                   PStr ''thanks'', PStr ''06/03/2023'']]\<rparr>"
  by (simp add: formate_appstore_reviews_store_def appstore_eval_defs eval_defs
      appstore_sample_def appstore_sample_replied_def sample_strptime_def)


section \<open>Facts about the request handler\<close>

text \<open>The exceptions each stage can raise.\<close>

lemma project_fields_error: "project_fields rv pairs ds = Inl e \<Longrightarrow> \<exists>k. e = KeyError k"
proof (induction pairs arbitrary: ds)
  case Nil
  then show ?case by simp
next
  case (Cons p pairs)
  obtain rk dk where p: "p = (rk, dk)" by (cases p)
  from Cons.prems show ?case
    unfolding p
    by (auto simp: dict_getitem_def split: option.splits sum.splits dest: Cons.IH)
qed

lemma project_all_error: "project_all revs pairs ds = Inl e \<Longrightarrow> \<exists>k. e = KeyError k"
  by (induction revs arbitrary: ds) (auto split: sum.splits dest: project_fields_error)

lemma map_result_date_error: "map_result date_cell xs = Inl e \<Longrightarrow> e = AttributeError ''strftime''"
  by (induction xs) (auto simp: date_cell_def split: sum.splits pyval.splits)

lemma date_column_error:
  "date_column key ds = Inl e \<Longrightarrow> (\<exists>k. e = KeyError k) \<or> e = AttributeError ''strftime''"
  by (auto simp: date_column_def dict_getitem_def split: option.splits sum.splits
      dest: map_result_date_error)

lemma format_generic_dataset_error:
  "format_generic_dataset revs K R = Inl e \<Longrightarrow>
     (\<exists>k. e = KeyError k) \<or> e = AttributeError ''strftime''"
  by (auto simp: format_generic_dataset_def split: sum.splits
      dest: project_all_error date_column_error)

lemma np_array_error: "np_array xss = Inl e \<Longrightarrow> e = ValueError ''inhomogeneous shape''"
  by (auto simp: np_array_def split: list.splits if_splits)

lemma np_concatenate_error:
  "np_concatenate a b = Inl e \<Longrightarrow> e = ValueError ''array dimensions must match''"
  by (auto simp: np_concatenate_def split: if_splits)

lemma format_generic_error:
  "format_generic revs K R = Inl e \<Longrightarrow>
     (\<exists>k. e = KeyError k) \<or> e = AttributeError ''strftime''
     \<or> e = ValueError ''inhomogeneous shape'' \<or> e = ValueError ''array dimensions must match''"
  by (auto simp: format_generic_def split: sum.splits
      dest: format_generic_dataset_error np_array_error np_concatenate_error)

lemma preprocess_review_error:
  "preprocess_appstore_review strptime rv = (rv', Some e) \<Longrightarrow>
     (\<exists>k. e = KeyError k) \<or> e = TypeError \<or> (\<exists>s f m. strptime s f = Inl m \<and> e = ValueError m)"
  by (auto simp: preprocess_appstore_review_def dict_getitem_def py_add_def py_getitem_def
      py_strptime_def Let_def split: option.splits sum.splits pyval.splits if_splits prod.splits)

lemma preprocess_reviews_error:
  "preprocess_appstore_reviews strptime revs = (revs', Some e) \<Longrightarrow>
     (\<exists>k. e = KeyError k) \<or> e = TypeError \<or> (\<exists>s f m. strptime s f = Inl m \<and> e = ValueError m)"
proof (induction revs arbitrary: revs')
  case Nil
  then show ?case by simp
next
  case (Cons rv revs)
  obtain rv' err where one: "preprocess_appstore_review strptime rv = (rv', err)"
    by (cases "preprocess_appstore_review strptime rv")
  show ?case
  proof (cases err)
    case (Some e')
    with one Cons.prems have "e = e'" by simp
    with one Some show ?thesis using preprocess_review_error by blast
  next
    case None
    with one Cons.prems obtain rest where "preprocess_appstore_reviews strptime revs = (rest, Some e)"
      by (auto split: prod.splits)
    then show ?thesis by (rule Cons.IH)
  qed
qed

lemma formate_appstore_error:
  "snd (formate_appstore_reviews strptime revs) = Inl e \<Longrightarrow>
     (\<exists>k. e = KeyError k) \<or> e = TypeError \<or> (\<exists>s f m. strptime s f = Inl m \<and> e = ValueError m)
     \<or> e = AttributeError ''strftime''
     \<or> e = ValueError ''inhomogeneous shape'' \<or> e = ValueError ''array dimensions must match''"
proof -
  assume a: "snd (formate_appstore_reviews strptime revs) = Inl e"
  obtain revs' err where pre: "preprocess_appstore_reviews strptime revs = (revs', err)"
    by (cases "preprocess_appstore_reviews strptime revs")
  show ?thesis
  proof (cases err)
    case (Some e')
    with pre a have "e = e'" by (simp add: formate_appstore_reviews_def)
    with pre Some show ?thesis using preprocess_reviews_error by blast
  next
    case None
    with pre a have "format_generic revs' appstore_dataset_cols appstore_revs_cols = Inl e"
      by (simp add: formate_appstore_reviews_def)
    from format_generic_error [OF this] show ?thesis by blast
  qed
qed

lemma py_index_error: "py_index xs i = Inl e \<Longrightarrow> e = IndexError"
  by (auto simp: py_index_def split: if_splits)

lemma appstore_path_error:
  assumes "appstore_path strptime service url = Inl e"
  shows "(\<exists>k. e = KeyError k) \<or> e = TypeError \<or> (\<exists>s f m. strptime s f = Inl m \<and> e = ValueError m)
     \<or> e = AttributeError ''strftime'' \<or> e = AttributeError ''to_csv'' \<or> e = IndexError
     \<or> e = ValueError ''inhomogeneous shape'' \<or> e = ValueError ''array dimensions must match''"
proof (cases "get_app_id_name_from_appstore_url url")
  case (Inl e')
  then have "e' = IndexError"
    by (auto simp: get_app_id_name_from_appstore_url_def split: sum.splits dest: py_index_error)
  with Inl assms show ?thesis by (simp add: appstore_path_def)
next
  case (Inr ids)
  obtain a_id a_name where ids: "ids = (a_id, a_name)" by (cases ids)
  let ?r = "snd (formate_appstore_reviews strptime
                  (retrieve_appstore_reviews service a_name a_id ''it'' (2 ^ 63 - 1)))"
  show ?thesis
  proof (cases ?r)
    case (Inl e')
    with Inr ids assms have "e = e'" by (simp add: appstore_path_def)
    with formate_appstore_error [OF Inl] show ?thesis by blast
  next
    case inr: (Inr T)
    with Inr ids assms show ?thesis by (simp add: appstore_path_def)
  qed
qed

lemma playstore_path_error:
  assumes "playstore_path reviews w url = Inl e"
  shows "(\<exists>k. e = KeyError k) \<or> e = AttributeError ''strftime'' \<or> e = AttributeError ''to_csv''
     \<or> e = IndexError
     \<or> e = ValueError ''inhomogeneous shape'' \<or> e = ValueError ''array dimensions must match''"
proof (cases "get_app_id_from_playstore_url url")
  case (Inl e')
  then have "e' = IndexError"
    by (auto simp: get_app_id_from_playstore_url_def split: sum.splits dest: py_index_error)
  with Inl assms show ?thesis by (simp add: playstore_path_def)
next
  case (Inr a_id)
  let ?r = "format_generic (retrieve_playstore_reviews reviews w a_id ''it'' ''it'' 100000)
              playstore_dataset_cols playstore_revs_cols"
  show ?thesis
  proof (cases ?r)
    case (Inl e')
    with Inr assms have "e = e'" by (simp add: playstore_path_def format_playstore_reviews_def)
    with format_generic_error [OF Inl] show ?thesis by blast
  next
    case inr: (Inr T)
    with Inr assms show ?thesis by (simp add: playstore_path_def format_playstore_reviews_def)
  qed
qed


lemma format_generic_empty_ok:
  "\<exists>T. format_generic [] appstore_dataset_cols appstore_revs_cols = Inr T"
  "\<exists>T. format_generic [] playstore_dataset_cols playstore_revs_cols = Inr T"
  using format_generic_total [OF platform_columns_members(1), of "[]"]
    format_generic_total [OF platform_columns_members(2), of "[]"]
  by simp_all

lemma appstore_path_no_reviews:
  "appstore_path strptime no_reviews_service ''https://apps.apple.com/it/app/enel-x-way/id1377291789''
     = Inl (AttributeError ''to_csv'')"
proof -
  have ids: "get_app_id_name_from_appstore_url ''https://apps.apple.com/it/app/enel-x-way/id1377291789''
      = Inr (''1377291789'', ''enel-x-way'')"
    by (simp add: get_app_id_name_from_appstore_url_def py_index_def)
  have none: "retrieve_appstore_reviews no_reviews_service a_name a_id ctry how_many = []"
    for a_name a_id ctry how_many
    by (simp add: retrieve_appstore_reviews_def no_reviews_service_def py_slice_to_def)
  from format_generic_empty_ok(1) obtain T where
    "snd (formate_appstore_reviews strptime []) = Inr T"
    by (auto simp: formate_appstore_reviews_def)
  then show ?thesis
    unfolding appstore_path_def ids by (simp add: none)
qed

lemma playstore_path_no_pages:
  "playstore_path no_pages_service ()
     ''https://play.google.com/store/apps/details?id=com.enel.mobile.recharge2&hl=it&gl=US''
     = Inl (AttributeError ''to_csv'')"
proof -
  have ids: "get_app_id_from_playstore_url
      ''https://play.google.com/store/apps/details?id=com.enel.mobile.recharge2&hl=it&gl=US''
      = Inr ''com.enel.mobile.recharge2''"
    by (simp add: get_app_id_from_playstore_url_def py_index_def)
  have none: "retrieve_playstore_reviews no_pages_service () a_id lng ctry 100000 = []"
    for a_id lng ctry
    by (simp add: retrieve_playstore_reviews_def retrieve_loop.simps no_pages_service_def)
  from format_generic_empty_ok(2) obtain T where
    "snd (format_playstore_reviews []) = Inr T"
    by (auto simp: format_playstore_reviews_def)
  then show ?thesis
    unfolding playstore_path_def ids by (simp add: none)
qed

lemma markers:
  "sublist ''apps.apple.com'' ''https://apps.apple.com/it/app/enel-x-way/id1377291789''"
  "\<not> sublist ''apps.apple.com''
       ''https://play.google.com/store/apps/details?id=com.enel.mobile.recharge2&hl=it&gl=US''"
  "sublist ''play.google.com''
       ''https://play.google.com/store/apps/details?id=com.enel.mobile.recharge2&hl=it&gl=US''"
  "\<not> sublist ''apps.apple.com'' ''https://example.com/app''"
  "\<not> sublist ''play.google.com'' ''https://example.com/app''"
  by (simp_all add: sublist_Cons_right)


section \<open>Results: identifier extraction\<close>

text \<open>
  C3, as the specification states it, fails: \<^verbatim>\<open>replace("id", "")\<close> deletes every
  occurrence of \<open>id\<close> in the last segment, not only a leading one. On an App Store
  link that carries the language parameter \<open>l=id\<close> the returned id differs from the
  last segment with its \<open>id\<close> prefix stripped.
\<close>

theorem appstore_id_not_prefix_strip:
  "get_app_id_name_from_appstore_url ''https://apps.apple.com/id/app/gojek/id944875099?l=id''
     \<noteq> Inr (removeprefix ''id'' (last_segment ''https://apps.apple.com/id/app/gojek/id944875099?l=id''),
            last_segment (before_last_slash ''https://apps.apple.com/id/app/gojek/id944875099?l=id''))"
  by (simp add: get_app_id_name_from_appstore_url_def py_index_def removeprefix_def
      last_segment_def before_last_slash_def)

text \<open>
  C3, amended: for a URL with at least one \<open>/\<close> the app id is the last segment with
  every occurrence of \<open>id\<close> deleted, and the app name is the segment before it; a URL
  without \<open>/\<close> raises \<open>IndexError\<close>. Where the last segment is \<open>id\<close> followed by a
  text in which \<open>id\<close> does not occur again, the deletion is exactly the removal of
  that prefix. The URL of the docstring gives id \<open>1377291789\<close> and name \<open>enel-x-way\<close>.
\<close>

theorem appstore_url_extraction:
  "get_app_id_name_from_appstore_url url =
     (if CHR ''/'' \<in> set url
      then Inr (py_replace ''id'' '''' (last_segment url), last_segment (before_last_slash url))
      else Inl IndexError)
   \<and> (\<not> sublist ''id'' rest \<longrightarrow> py_replace ''id'' '''' (''id'' @ rest) = removeprefix ''id'' (''id'' @ rest))
   \<and> get_app_id_name_from_appstore_url ''https://apps.apple.com/it/app/enel-x-way/id1377291789''
       = Inr (''1377291789'', ''enel-x-way'')"
proof (intro conjI)
  show "get_app_id_name_from_appstore_url url =
     (if CHR ''/'' \<in> set url
      then Inr (py_replace ''id'' '''' (last_segment url), last_segment (before_last_slash url))
      else Inl IndexError)"
    by (simp add: appstore_url_no_slash appstore_url_slash)
  show "\<not> sublist ''id'' rest \<longrightarrow> py_replace ''id'' '''' (''id'' @ rest) = removeprefix ''id'' (''id'' @ rest)"
    by (simp add: removeprefix_def py_replace_absent)
  show "get_app_id_name_from_appstore_url ''https://apps.apple.com/it/app/enel-x-way/id1377291789''
       = Inr (''1377291789'', ''enel-x-way'')"
    by (simp add: get_app_id_name_from_appstore_url_def py_index_def)
qed

theorem appstore_url_extraction_witness:
  "get_app_id_name_from_appstore_url ''https://apps.apple.com/us/app/x/id42'' = Inr (''42'', ''x'')
   \<and> get_app_id_name_from_appstore_url ''apps.apple.com'' = Inl IndexError
   \<and> \<not> sublist ''id'' ''42'' \<and> py_replace ''id'' '''' ''id42'' = ''42''"
  using appstore_url_extraction [of "''https://apps.apple.com/us/app/x/id42''" "''42''"]
    appstore_url_extraction [of "''apps.apple.com''" "''42''"]
  by (simp add: last_segment_def before_last_slash_def removeprefix_def sublist_Cons_right)

text \<open>
  C9, as the specification states it, fails: the bare domain name contains the App Store
  marker and no \<open>/\<close>, so \<^verbatim>\<open>url.split("/")[-2]\<close> raises \<open>IndexError\<close>.
\<close>

theorem appstore_extraction_raises:
  "sublist ''apps.apple.com'' ''apps.apple.com''
   \<and> get_app_id_name_from_appstore_url ''apps.apple.com'' = Inl IndexError"
  by (simp add: get_app_id_name_from_appstore_url_def py_index_def)

text \<open>
  C9, amended: for a URL that contains the App Store marker, extraction returns a pair of
  strings exactly when the URL contains a \<open>/\<close>, whatever else its shape; without a
  \<open>/\<close> it raises \<open>IndexError\<close>.
\<close>

theorem appstore_extraction_total_with_slash:
  assumes "sublist ''apps.apple.com'' url"
  shows "(CHR ''/'' \<in> set url \<longrightarrow> (\<exists>app_id app_name. get_app_id_name_from_appstore_url url = Inr (app_id, app_name)))
       \<and> (CHR ''/'' \<notin> set url \<longrightarrow> get_app_id_name_from_appstore_url url = Inl IndexError)"
  by (simp add: appstore_url_no_slash appstore_url_slash)

theorem appstore_extraction_total_with_slash_witness:
  "sublist ''apps.apple.com'' ''apps.apple.com/''
   \<and> CHR ''/'' \<in> set ''apps.apple.com/''
   \<and> (\<exists>app_id app_name. get_app_id_name_from_appstore_url ''apps.apple.com/'' = Inr (app_id, app_name))"
proof -
  have h: "sublist ''apps.apple.com'' ''apps.apple.com/''"
    by (simp add: sublist_Cons_right)
  show ?thesis
    using h appstore_extraction_total_with_slash [OF h] by simp
qed


section \<open>Results: fetching\<close>

text \<open>
  C2: whatever pages the service returns and whatever the limit, the result of
  \<open>retrieve_playstore_reviews\<close> is the first \<open>n\<close> pages, whole and in order, where
  \<open>n\<close> is the first call at which the count accumulated so far has reached the limit
  or the page returned is empty: every earlier page was non-empty and was requested
  with fewer records than the limit in hand. Nothing is cut off, so the result exceeds
  the limit by less than its last page. With pages of 150, 150, 40 and 0 records and
  limit 1000 the result has 340 records; with pages of 150 records without end and
  limit 200 it has 300.
\<close>

theorem retrieve_playstore_reviews_stops:
  fixes reviews :: "('w, 'tok, 'r) reviews_service" and w :: 'w and a_id lng ctry :: string
  defines "pg \<equiv> nth_page reviews (playstore_request a_id lng ctry) w"
    and "acc \<equiv> pages_upto reviews (playstore_request a_id lng ctry) w"
  shows "(\<exists>n. retrieve_playstore_reviews reviews w a_id lng ctry how_many = acc n
            \<and> (\<forall>k<n. pg k \<noteq> [] \<and> int (length (acc k)) < how_many)
            \<and> (how_many \<le> int (length (acc n)) \<or> pg n = []))
       \<and> (length (pg 0) = 150 \<and> length (pg 1) = 150 \<and> length (pg 2) = 40 \<and> pg 3 = []
            \<longrightarrow> length (retrieve_playstore_reviews reviews w a_id lng ctry 1000) = 340)
       \<and> ((\<forall>k. length (pg k) = 150)
            \<longrightarrow> length (retrieve_playstore_reviews reviews w a_id lng ctry 200) = 300)"
proof (intro conjI impI)
  have main: "\<exists>n. retrieve_playstore_reviews reviews w a_id lng ctry lim = acc n
            \<and> (\<forall>k<n. pg k \<noteq> [] \<and> int (length (acc k)) < lim)
            \<and> (lim \<le> int (length (acc n)) \<or> pg n = [])" for lim
    using retrieve_loop_pages [of "playstore_request a_id lng ctry" a_id lng ctry 0 reviews lim w]
    by (simp add: retrieve_playstore_reviews_def pg_def acc_def pages_upto_def)
  show "\<exists>n. retrieve_playstore_reviews reviews w a_id lng ctry how_many = acc n
            \<and> (\<forall>k<n. pg k \<noteq> [] \<and> int (length (acc k)) < how_many)
            \<and> (how_many \<le> int (length (acc n)) \<or> pg n = [])"
    by (rule main)
  have len: "length (acc n) = (\<Sum>k<n. length (pg k))" for n
    by (simp add: acc_def pg_def length_pages_upto)
  {
    assume sizes: "length (pg 0) = 150 \<and> length (pg 1) = 150 \<and> length (pg 2) = 40 \<and> pg 3 = []"
    from main [of 1000] obtain n where n:
      "retrieve_playstore_reviews reviews w a_id lng ctry 1000 = acc n"
      "\<forall>k<n. pg k \<noteq> [] \<and> int (length (acc k)) < 1000"
      "1000 \<le> int (length (acc n)) \<or> pg n = []"
      by blast
    have "\<not> 3 < n"
      using n(2) sizes by auto
    then consider "n = 0" | "n = 1" | "n = 2" | "n = 3"
      by linarith
    then have "n = 3"
      using n(3) sizes by cases (auto simp: len lessThan_Suc eval_nat_numeral)
    then show "length (retrieve_playstore_reviews reviews w a_id lng ctry 1000) = 340"
      using sizes by (simp add: n(1) len lessThan_Suc eval_nat_numeral)
  }
  {
    assume sizes: "\<forall>k. length (pg k) = 150"
    have len150: "length (acc n) = 150 * n" for n
      by (simp add: len sizes)
    from main [of 200] obtain n where n:
      "retrieve_playstore_reviews reviews w a_id lng ctry 200 = acc n"
      "\<forall>k<n. pg k \<noteq> [] \<and> int (length (acc k)) < 200"
      "200 \<le> int (length (acc n)) \<or> pg n = []"
      by blast
    have "\<not> 2 < n"
    proof
      assume "2 < n"
      with n(2) have "int (length (acc 2)) < 200" by blast
      then show False by (simp add: len150)
    qed
    moreover have "pg n \<noteq> []"
      using sizes [THEN spec, of n] by auto
    with n(3) have "2 \<le> n"
      by (simp add: len150)
    ultimately have "n = 2" by simp
    then show "length (retrieve_playstore_reviews reviews w a_id lng ctry 200) = 300"
      by (simp add: n(1) len150)
  }
qed

theorem retrieve_playstore_reviews_stops_witness:
  "length (retrieve_playstore_reviews
      (\<lambda>w req. ((replicate ([150, 150, 40, 0] ! min w 3) (), Some w), Suc w)) (0::nat) ''com.app'' ''it'' ''it'' 1000) = 340
   \<and> length (retrieve_playstore_reviews
      (\<lambda>w req. ((replicate 150 (), Some w), Suc w)) (0::nat) ''com.app'' ''it'' ''it'' 200) = 300"
  using retrieve_playstore_reviews_stops [of "\<lambda>w req. ((replicate ([150, 150, 40, 0] ! min w 3) (), Some w), Suc w)"
      "0::nat" "''com.app''" "''it''" "''it''" 1000]
    retrieve_playstore_reviews_stops [of "\<lambda>w req. ((replicate 150 (), Some w), Suc w)"
      "0::nat" "''com.app''" "''it''" "''it''" 200]
  by (simp add: nth_page_def eval_nat_numeral)


section \<open>Results: normalisation\<close>

text \<open>
  C4: in both calls of the shared projection, the inner loop appends, for a field whose
  value is a text, that text with every newline character deleted and nothing put in its
  place, the other characters in their order; and in the table returned, the Username,
  Review and Reply cell of every data row holds that text (read back from the array),
  so no text in these cells contains a newline character.
\<close>

theorem projection_removes_newlines:
  assumes cfg: "(K, R) \<in> platform_columns"
  shows "(j < length K \<and> project_fields rv (zip R K) ds = Inr ds' \<and> map_of rv (R ! j) = Some (PStr s)
           \<longrightarrow> (\<exists>col. map_of ds (K ! j) = Some col
                 \<and> map_of ds' (K ! j) = Some (col @ [PStr (filter (\<lambda>c. c \<noteq> CHR 0x0A) s)])))
       \<and> (format_generic revs K R = Inr T \<and> i < length revs \<and> (n = 1 \<or> n = 2 \<or> n = 4)
           \<longrightarrow> (\<forall>s. map_of (revs ! i) (R ! n) = Some (PStr s) \<longrightarrow>
                  rows T ! Suc i ! n = np_item (dtype T) (PStr (filter (\<lambda>c. c \<noteq> CHR 0x0A) s)))
               \<and> (\<forall>t. rows T ! Suc i ! n = PStr t \<longrightarrow> CHR 0x0A \<notin> set t))"
proof (intro conjI impI)
  from platform_columns_ok [OF cfg] have K: "distinct K" and len: "length R = length K"
    by simp_all
  {
    assume a: "j < length K \<and> project_fields rv (zip R K) ds = Inr ds' \<and> map_of rv (R ! j) = Some (PStr s)"
    have "distinct (map snd (zip R K))" using K len by simp
    moreover from a len have "(R ! j, K ! j) \<in> set (zip R K)"
      by (metis in_set_zip fst_conv snd_conv)
    ultimately obtain v col where "map_of rv (R ! j) = Some v" "map_of ds (K ! j) = Some col"
      "map_of ds' (K ! j) = Some (col @ [strip_newlines v])"
      using project_fields_cols [of rv "zip R K" ds ds'] a by blast
    with a show "\<exists>col. map_of ds (K ! j) = Some col
                 \<and> map_of ds' (K ! j) = Some (col @ [PStr (filter (\<lambda>c. c \<noteq> CHR 0x0A) s)])"
      by (simp add: strip_newlines_PStr)
  }
  assume b: "format_generic revs K R = Inr T \<and> i < length revs \<and> (n = 1 \<or> n = 2 \<or> n = 4)"
  from platform_columns_names [OF cfg] b have n: "n < length K" "n \<noteq> 0" "n \<noteq> 5"
    by auto
  from not_date_column [OF cfg n] have nd: "\<not> (K ! n = ''Datetime'' \<or> K ! n = ''Reply Datetime'')"
    by simp
  from b format_generic_cell [OF _ K len _ n(1), of revs T i] nd obtain v where
    v: "map_of (revs ! i) (R ! n) = Some v" "rows T ! Suc i ! n = np_item (dtype T) (strip_newlines v)"
    by auto
  show "\<forall>s. map_of (revs ! i) (R ! n) = Some (PStr s) \<longrightarrow>
          rows T ! Suc i ! n = np_item (dtype T) (PStr (filter (\<lambda>c. c \<noteq> CHR 0x0A) s))"
    using v by (auto simp: strip_newlines_PStr)
  show "\<forall>t. rows T ! Suc i ! n = PStr t \<longrightarrow> CHR 0x0A \<notin> set t"
    using v np_item_text_no_newline by auto
qed

theorem projection_removes_newlines_witness:
  "(playstore_dataset_cols, playstore_revs_cols) \<in> platform_columns
   \<and> map_of playstore_sample ''userName'' = Some (PStr [CHR ''a'', CHR 0x0A, CHR ''b''])
   \<and> (\<exists>ds'. project_fields playstore_sample (zip playstore_revs_cols playstore_dataset_cols)
          [(''Datetime'', []), (''Username'', []), (''Review'', []), (''Rating'', []), (''Reply'', []),
           (''Reply Datetime'', []), (''Thumbs Up'', [])] = Inr ds'
        \<and> map_of ds' ''Username'' = Some [PStr ''ab''])
   \<and> (\<exists>T. format_generic [playstore_sample] playstore_dataset_cols playstore_revs_cols = Inr T
        \<and> rows T ! 1 ! 1 = PStr ''ab'' \<and> rows T ! 1 ! 2 = PStr ''xy'')"
  using projection_removes_newlines [OF platform_columns_members(2),
      where j = 1 and rv = playstore_sample
        and ds = "[(''Datetime'', []), (''Username'', []), (''Review'', []), (''Rating'', []),
                   (''Reply'', []), (''Reply Datetime'', []), (''Thumbs Up'', [])]"
        and s = "[CHR ''a'', CHR 0x0A, CHR ''b'']"
        and revs = "[playstore_sample]" and i = 0 and n = 1]
    projection_removes_newlines [OF platform_columns_members(2),
      where revs = "[playstore_sample]" and i = 0 and n = 2]
  by (simp add: playstore_sample_table playstore_sample_fields platform_columns_members)
     (simp add: playstore_sample_def playstore_revs_cols_def playstore_dataset_cols_def)

text \<open>
  C5, as the specification states it, fails for a date before the year 1000:
  \<^verbatim>\<open>strftime("%d/%m/%Y")\<close> does not pad the year, so a Play Store review dated
  2 January of the year 5 gets the Datetime cell \<open>02/01/5\<close>, which is not two digits,
  a slash, two digits, a slash and four digits.
\<close>

theorem date_before_year_1000:
  "format_generic
     [[(''reviewId'', PStr ''r3''), (''userName'', PStr ''eve''), (''content'', PStr ''old''),
       (''score'', PInt 3), (''thumbsUpCount'', PInt 0),
       (''at'', PDatetime \<lparr>dt_year = 5, dt_month = 1, dt_day = 2, dt_hour = 0,
                             dt_minute = 0, dt_second = 0, dt_microsecond = 0\<rparr>),
       (''replyContent'', PNone), (''repliedAt'', PNone)]]
     playstore_dataset_cols playstore_revs_cols
   = Inr \<lparr>dtype = Object, shape = [2, 7],
          rows = [[PStr ''Datetime'', PStr ''Username'', PStr ''Review'', PStr ''Rating'',
                   PStr ''Reply'', PStr ''Reply Datetime'', PStr ''Thumbs Up''],
                  [PStr ''02/01/5'', PStr ''eve'', PStr ''old'', PInt 3, PNone, PStr [],
                   PInt 0]]\<rparr>
   \<and> valid_datetime \<lparr>dt_year = 5, dt_month = 1, dt_day = 2, dt_hour = 0,
                        dt_minute = 0, dt_second = 0, dt_microsecond = 0\<rparr>
   \<and> \<not> day_month_year_format ''02/01/5''"
  using playstore_sample_early_table
  by (simp add: playstore_sample_early_def valid_datetime_def day_month_year_format_def)

text \<open>
  C5, amended: in the table returned, the Datetime and the Reply Datetime cell of every
  data row is the empty text when the field is \<^verbatim>\<open>None\<close> or a text, and otherwise the
  field is a \<^verbatim>\<open>datetime\<close> and the cell is the text \<^verbatim>\<open>strftime\<close> gives; no other value
  can stand in these columns. For every \<^verbatim>\<open>datetime\<close> that text is the day as two digits,
  a slash, the month as two digits, a slash, and the year in decimal digits without
  leading zeros; it has the shape \<open>DD/MM/YYYY\<close> exactly when the year is 1000 or later.
  March 5, 2023 gives \<open>05/03/2023\<close>, at any time of day.
\<close>

theorem date_columns_format:
  assumes cfg: "(K, R) \<in> platform_columns" and run: "format_generic revs K R = Inr T"
    and i: "i < length revs" and j: "j = 0 \<or> j = 5"
  shows "(\<exists>v. map_of (revs ! i) (R ! j) = Some v \<and> date_like v
            \<and> rows T ! Suc i ! j = PStr (case v of PDatetime d \<Rightarrow> strftime_dmY d | _ \<Rightarrow> []))
       \<and> (valid_datetime d \<longrightarrow>
            strftime_dmY d
              = two_digits (dt_day d) @ ''/'' @ two_digits (dt_month d) @ ''/''
                  @ year_digits (dt_year d)
            \<and> (day_month_year_format (strftime_dmY d) \<longleftrightarrow> 1000 \<le> dt_year d))
       \<and> strftime_dmY \<lparr>dt_year = 2023, dt_month = 3, dt_day = 5, dt_hour = hh, dt_minute = mm,
                         dt_second = ss, dt_microsecond = us\<rparr> = ''05/03/2023''"
proof (intro conjI impI)
  from platform_columns_ok [OF cfg] have K: "distinct K" and len: "length R = length K"
    by simp_all
  from platform_columns_names [OF cfg] j have jK: "j < length K"
    and date: "K ! j = ''Datetime'' \<or> K ! j = ''Reply Datetime''"
    by auto
  from format_generic_cell [OF run K len i jK] date obtain v c where
    v: "map_of (revs ! i) (R ! j) = Some v" "rows T ! Suc i ! j = np_item (dtype T) c"
    "date_cell (strip_newlines v) = Inr c"
    by auto
  from v(3) have "date_like v" by (rule date_cell_date_like)
  moreover from v(2,3) have "rows T ! Suc i ! j = PStr (case v of PDatetime d \<Rightarrow> strftime_dmY d | _ \<Rightarrow> [])"
    by (simp add: np_item_date)
  ultimately show "\<exists>v. map_of (revs ! i) (R ! j) = Some v \<and> date_like v
            \<and> rows T ! Suc i ! j = PStr (case v of PDatetime d \<Rightarrow> strftime_dmY d | _ \<Rightarrow> [])"
    using v(1) by blast
  show "strftime_dmY d
          = two_digits (dt_day d) @ ''/'' @ two_digits (dt_month d) @ ''/''
              @ year_digits (dt_year d)" if "valid_datetime d"
    using that by (rule strftime_dmY_digits)
  show "day_month_year_format (strftime_dmY d) \<longleftrightarrow> 1000 \<le> dt_year d" if "valid_datetime d"
    using that by (rule strftime_dmY_format)
  show "strftime_dmY \<lparr>dt_year = 2023, dt_month = 3, dt_day = 5, dt_hour = hh, dt_minute = mm,
                         dt_second = ss, dt_microsecond = us\<rparr> = ''05/03/2023''"
    by (rule strftime_dmY_example)
qed

theorem date_columns_format_witness:
  "(playstore_dataset_cols, playstore_revs_cols) \<in> platform_columns
   \<and> (\<exists>T. format_generic [playstore_sample] playstore_dataset_cols playstore_revs_cols = Inr T
        \<and> map_of playstore_sample ''at''
            = Some (PDatetime \<lparr>dt_year = 2023, dt_month = 3, dt_day = 5, dt_hour = 10,
                                  dt_minute = 30, dt_second = 0, dt_microsecond = 0\<rparr>)
        \<and> rows T ! 1 ! 0 = PStr ''05/03/2023''
        \<and> map_of playstore_sample ''repliedAt'' = Some PNone
        \<and> rows T ! 1 ! 5 = PStr [])
   \<and> valid_datetime \<lparr>dt_year = 2023, dt_month = 3, dt_day = 5, dt_hour = 10,
                         dt_minute = 30, dt_second = 0, dt_microsecond = 0\<rparr>
   \<and> two_digits 5 @ ''/'' @ two_digits 3 @ ''/'' @ year_digits 2023 = ''05/03/2023''
   \<and> day_month_year_format ''05/03/2023''
   \<and> valid_datetime \<lparr>dt_year = 987, dt_month = 12, dt_day = 31, dt_hour = 0,
                         dt_minute = 0, dt_second = 0, dt_microsecond = 0\<rparr>
   \<and> strftime_dmY \<lparr>dt_year = 987, dt_month = 12, dt_day = 31, dt_hour = 0,
                         dt_minute = 0, dt_second = 0, dt_microsecond = 0\<rparr> = ''31/12/987''
   \<and> \<not> day_month_year_format ''31/12/987''"
  using date_columns_format [OF platform_columns_members(2) playstore_sample_table,
      where i = 0 and j = 0 and hh = 0 and mm = 0 and ss = 0 and us = 0
        and d = "\<lparr>dt_year = 2023, dt_month = 3, dt_day = 5, dt_hour = 10,
                   dt_minute = 30, dt_second = 0, dt_microsecond = 0\<rparr>"]
    date_columns_format [OF platform_columns_members(2) playstore_sample_table,
      where i = 0 and j = 5 and hh = 0 and mm = 0 and ss = 0 and us = 0
        and d = "\<lparr>dt_year = 987, dt_month = 12, dt_day = 31, dt_hour = 0,
                   dt_minute = 0, dt_second = 0, dt_microsecond = 0\<rparr>"]
  by (simp add: playstore_sample_table platform_columns_members valid_datetime_def
        two_digits_def year_digits_def)
     (auto simp: playstore_sample_def)

text \<open>
  C6: for an App Store review whose title and review are texts, the preparation step
  sets the review to the title followed by the review text, nothing between them. If the
  review has no developer response it sets the reply and the reply date to the empty
  text; if it has one, it copies the body into the reply and stores in the reply date
  what \<^verbatim>\<open>strptime\<close> parses from the \<open>modified\<close> timestamp with the format
  \<^verbatim>\<open>%Y-%m-%dT%H:%M:%SZ\<close>. A review with title \<open>Great\<close>, review text \<open> app\<close>, no
  developer response and rating 5 (with any user name and any date) gives a table whose
  data row has Review \<open>Great app\<close>, Reply empty and Reply Datetime empty.
\<close>

theorem appstore_preparation:
  assumes "map_of rv ''title'' = Some (PStr title)" and "map_of rv ''review'' = Some (PStr review)"
  shows "(map_of rv ''developerResponse'' = None \<longrightarrow>
            preprocess_appstore_review strptime rv =
              (AList.update ''repliedAt'' (PStr [])
                 (AList.update ''replyContent'' (PStr [])
                    (AList.update ''review'' (PStr (title @ review)) rv)), None))
       \<and> (map_of rv ''developerResponse'' = Some (PDict resp) \<and> map_of resp ''body'' = Some body
            \<and> map_of resp ''modified'' = Some (PStr modified)
            \<and> strptime modified ''%Y-%m-%dT%H:%M:%SZ'' = Inr d \<longrightarrow>
            preprocess_appstore_review strptime rv =
              (AList.update ''repliedAt'' (PDatetime d)
                 (AList.update ''replyContent'' body
                    (AList.update ''review'' (PStr (title @ review)) rv)), None))
       \<and> (title = ''Great'' \<and> review = '' app'' \<and> map_of rv ''developerResponse'' = None
            \<and> map_of rv ''rating'' = Some (PInt 5) \<and> map_of rv ''userName'' = Some u
            \<and> map_of rv ''date'' = Some dv \<and> date_like dv \<longrightarrow>
            (\<exists>rv' T. formate_appstore_reviews strptime [rv] = ([rv'], Inr T)
               \<and> rows T ! 1 ! 2 = PStr ''Great app'' \<and> rows T ! 1 ! 4 = PStr []
               \<and> rows T ! 1 ! 5 = PStr []))"
  using assms preprocess_no_response [of rv title review strptime]
    preprocess_with_response [of rv title review resp body modified strptime d]
    appstore_great_app [of rv u dv strptime]
  by blast

theorem appstore_preparation_witness:
  "map_of appstore_sample ''title'' = Some (PStr ''Great'')
   \<and> map_of appstore_sample ''review'' = Some (PStr '' app'')
   \<and> map_of appstore_sample ''developerResponse'' = None
   \<and> preprocess_appstore_review sample_strptime appstore_sample =
       ([(''date'', PDatetime \<lparr>dt_year = 2023, dt_month = 3, dt_day = 5, dt_hour = 10,
                                 dt_minute = 30, dt_second = 0, dt_microsecond = 0\<rparr>),
         (''review'', PStr ''Great app''), (''rating'', PInt 5), (''isEdited'', PBool False),
         (''title'', PStr ''Great''), (''userName'', PStr ''bob''),
         (''replyContent'', PStr []), (''repliedAt'', PStr [])], None)
   \<and> (\<exists>rv' T. formate_appstore_reviews sample_strptime [appstore_sample] = ([rv'], Inr T)
         \<and> rows T ! 1 ! 2 = PStr ''Great app'' \<and> rows T ! 1 ! 4 = PStr []
         \<and> rows T ! 1 ! 5 = PStr [])
   \<and> preprocess_appstore_review sample_strptime appstore_sample_replied =
       ([(''date'', PDatetime \<lparr>dt_year = 2023, dt_month = 3, dt_day = 5, dt_hour = 10,
                                 dt_minute = 30, dt_second = 0, dt_microsecond = 0\<rparr>),
         (''developerResponse'',
            PDict [(''id'', PInt 7), (''body'', PStr ''thanks''),
                   (''modified'', PStr ''2023-03-06T09:00:00Z'')]),
         (''review'', PStr ''Great app''), (''rating'', PInt 5), (''isEdited'', PBool False),
         (''title'', PStr ''Great''), (''userName'', PStr ''bob''),
         (''replyContent'', PStr ''thanks''),
         (''repliedAt'', PDatetime \<lparr>dt_year = 2023, dt_month = 3, dt_day = 6, dt_hour = 9,
                                      dt_minute = 0, dt_second = 0, dt_microsecond = 0\<rparr>)], None)"
  using appstore_preparation [of appstore_sample "''Great''" "'' app''" sample_strptime,
      where u = "PStr ''bob''"
        and dv = "PDatetime \<lparr>dt_year = 2023, dt_month = 3, dt_day = 5, dt_hour = 10,
                               dt_minute = 30, dt_second = 0, dt_microsecond = 0\<rparr>"]
    appstore_preparation [of appstore_sample_replied "''Great''" "'' app''" sample_strptime,
      where resp = "[(''id'', PInt 7), (''body'', PStr ''thanks''),
                     (''modified'', PStr ''2023-03-06T09:00:00Z'')]"
        and body = "PStr ''thanks''" and modified = "''2023-03-06T09:00:00Z''"
        and d = "\<lparr>dt_year = 2023, dt_month = 3, dt_day = 6, dt_hour = 9,
                   dt_minute = 0, dt_second = 0, dt_microsecond = 0\<rparr>"]
  by (simp add: appstore_sample_def appstore_sample_replied_def sample_strptime_def date_like_def)

text \<open>
  C7, as the specification states it, fails: the table is a NumPy array, and an array of
  texts and numbers stores the numbers as texts. For a Play Store review with a reply
  the Rating and Thumbs Up cells hold the texts \<open>4\<close> and \<open>12\<close>, not the integers.
\<close>

theorem rating_stored_as_text:
  "format_generic
     [[(''reviewId'', PStr ''r2''), (''userName'', PStr ''bob''), (''content'', PStr ''ok''),
       (''score'', PInt 4), (''thumbsUpCount'', PInt 12),
       (''at'', PDatetime \<lparr>dt_year = 2023, dt_month = 3, dt_day = 5, dt_hour = 10,
                             dt_minute = 30, dt_second = 0, dt_microsecond = 0\<rparr>),
       (''replyContent'', PStr ''thx''),
       (''repliedAt'', PDatetime \<lparr>dt_year = 2023, dt_month = 3, dt_day = 6, dt_hour = 9,
                                    dt_minute = 0, dt_second = 0, dt_microsecond = 0\<rparr>)]]
     playstore_dataset_cols playstore_revs_cols
   = Inr \<lparr>dtype = Unicode, shape = [2, 7],
          rows = [[PStr ''Datetime'', PStr ''Username'', PStr ''Review'', PStr ''Rating'',
                   PStr ''Reply'', PStr ''Reply Datetime'', PStr ''Thumbs Up''],
                  [PStr ''05/03/2023'', PStr ''bob'', PStr ''ok'', PStr ''4'', PStr ''thx'',
                   PStr ''06/03/2023'', PStr ''12'']]\<rparr>
   \<and> PStr ''4'' \<noteq> PInt 4 \<and> PStr ''12'' \<noteq> PInt 12"
  using playstore_sample_replied_table by (simp add: playstore_sample_replied_def)

text \<open>
  C7, amended: the projection copies an integer rating, score or thumbs-up count
  unchanged into its column. In the table returned the cell holds that integer when the
  array keeps Python objects (some projected field outside the date columns is
  \<^verbatim>\<open>None\<close> or another value that is neither a text nor a number), and otherwise its
  plain decimal text as \<^verbatim>\<open>str\<close> gives it, with no other formatting.
\<close>

theorem rating_cell:
  assumes cfg: "(K, R) \<in> platform_columns" and run: "format_generic revs K R = Inr T"
    and i: "i < length revs" and j: "j = 3 \<or> (j = 6 \<and> 6 < length K)"
    and raw: "map_of (revs ! i) (R ! j) = Some (PInt n)"
  shows "rows T ! Suc i ! j = (if dtype T = Unicode then PStr (py_str_int n) else PInt n)
       \<and> (\<exists>ds col. format_generic_dataset revs K R = Inr ds \<and> map_of ds (K ! j) = Some col
             \<and> col ! i = PInt n)
       \<and> dtype T = (if \<forall>i'<length revs. \<forall>j'<length K.
                           K ! j' \<noteq> ''Datetime'' \<and> K ! j' \<noteq> ''Reply Datetime''
                             \<longrightarrow> np_text_or_number (the (map_of (revs ! i') (R ! j')))
                      then Unicode else Object)"
proof (intro conjI)
  from platform_columns_ok [OF cfg] have K: "distinct K" and len: "length R = length K"
    by simp_all
  from platform_columns_names [OF cfg] j have jK: "j < length K" "j \<noteq> 0" "j \<noteq> 5"
    by auto
  from not_date_column [OF cfg jK] have nd: "\<not> (K ! j = ''Datetime'' \<or> K ! j = ''Reply Datetime'')"
    by simp
  show dt: "dtype T = (if \<forall>i'<length revs. \<forall>j'<length K.
                           K ! j' \<noteq> ''Datetime'' \<and> K ! j' \<noteq> ''Reply Datetime''
                             \<longrightarrow> np_text_or_number (the (map_of (revs ! i') (R ! j')))
                      then Unicode else Object)"
    by (rule format_generic_dtype [OF run K len])
  from format_generic_cell [OF run K len i jK(1)] nd raw
  have "rows T ! Suc i ! j = np_item (dtype T) (PInt n)"
    by (auto simp: strip_newlines_def)
  moreover have "dtype T = Unicode \<or> dtype T = Object"
    using dt by (simp split: if_splits)
  ultimately show "rows T ! Suc i ! j = (if dtype T = Unicode then PStr (py_str_int n) else PInt n)"
    by (auto simp: np_item_def)
  from run obtain ds where ds: "format_generic_dataset revs K R = Inr ds"
    by (auto simp: format_generic_def split: sum.splits)
  from format_generic_dataset_cols(2) [OF ds K len jK(1)] nd raw i
  show "\<exists>ds col. format_generic_dataset revs K R = Inr ds \<and> map_of ds (K ! j) = Some col
             \<and> col ! i = PInt n"
    using ds by (auto simp: strip_newlines_def)
qed

theorem rating_cell_witness:
  "(playstore_dataset_cols, playstore_revs_cols) \<in> platform_columns
   \<and> map_of playstore_sample ''score'' = Some (PInt 4)
   \<and> map_of playstore_sample_replied ''thumbsUpCount'' = Some (PInt 12)
   \<and> (\<exists>T. format_generic [playstore_sample] playstore_dataset_cols playstore_revs_cols = Inr T
        \<and> dtype T = Object \<and> rows T ! 1 ! 3 = PInt 4)
   \<and> (\<exists>T. format_generic [playstore_sample_replied] playstore_dataset_cols playstore_revs_cols = Inr T
        \<and> dtype T = Unicode \<and> rows T ! 1 ! 6 = PStr ''12'')"
  using rating_cell [OF platform_columns_members(2) playstore_sample_table, where i = 0 and j = 3 and n = 4]
    rating_cell [OF platform_columns_members(2) playstore_sample_replied_table,
      where i = 0 and j = 6 and n = 12]
  by (simp add: playstore_sample_table playstore_sample_replied_table platform_columns_members)
     (simp add: playstore_sample_def playstore_sample_replied_def)

text \<open>
  C8: the table depends on nothing but the records of the batch and the way the batch
  shares them. Take two batches, possibly in two stores, the second a copy of the first:
  \<open>p\<close> maps the addresses of the first to those of the second one to one (so a
  record stands twice in one batch where it does in the other), and the records at
  corresponding addresses have the same fields, in whatever order. Then
  \<^verbatim>\<open>formate_appstore_reviews\<close> returns the same table, or raises the same exception,
  on both, and so does \<^verbatim>\<open>format_playstore_reviews\<close>; nothing else in either store, and
  no earlier call, has a part in it (\<^verbatim>\<open>strptime\<close> is the same function in both runs).
  In particular, when the copy lies in the same store at addresses apart from the
  batch, formatting the batch and then the copy gives the same table twice, although the
  first call has rewritten the records of the batch. On a batch without repetition the
  store model is the model on the list of records.
\<close>

theorem formatting_deterministic:
  assumes "inj_on p (set batch)"
    and "\<forall>a \<in> set batch. map_of (h1 a) = map_of (h2 (p a))"
  shows "snd (formate_appstore_reviews_store strptime h1 batch)
           = snd (formate_appstore_reviews_store strptime h2 (map p batch))
       \<and> snd (format_playstore_reviews (map h1 batch))
           = snd (format_playstore_reviews (map h2 (map p batch)))
       \<and> ((\<forall>a \<in> set batch. p a \<notin> set batch \<and> h1 (p a) = h2 (p a)) \<longrightarrow>
            snd (formate_appstore_reviews_store strptime
                   (fst (formate_appstore_reviews_store strptime h1 batch)) (map p batch))
              = snd (formate_appstore_reviews_store strptime h1 batch))
       \<and> (distinct batch \<longrightarrow>
            formate_appstore_reviews strptime (map h1 batch)
              = (map (fst (formate_appstore_reviews_store strptime h1 batch)) batch,
                 snd (formate_appstore_reviews_store strptime h1 batch)))"
proof (intro conjI impI)
  show "snd (formate_appstore_reviews_store strptime h1 batch)
           = snd (formate_appstore_reviews_store strptime h2 (map p batch))"
    using assms by (rule formate_appstore_reviews_store_cong)
  from assms(2) have "list_all2 (\<lambda>r1 r2. map_of r1 = map_of r2) (map h1 batch) (map h2 (map p batch))"
    by (simp add: list_all2_map1 list_all2_map2 list_all2_same)
  then show "snd (format_playstore_reviews (map h1 batch))
           = snd (format_playstore_reviews (map h2 (map p batch)))"
    by (simp add: format_playstore_reviews_def format_generic_cong)
next
  assume copy: "\<forall>a \<in> set batch. p a \<notin> set batch \<and> h1 (p a) = h2 (p a)"
  let ?h = "fst (formate_appstore_reviews_store strptime h1 batch)"
  have "\<forall>a \<in> set batch. map_of (h1 a) = map_of (?h (p a))"
  proof
    fix a assume a: "a \<in> set batch"
    with copy have "p a \<notin> set batch" and same: "h1 (p a) = h2 (p a)" by simp_all
    then have "?h (p a) = h1 (p a)"
      by (simp add: formate_appstore_reviews_store_fst preprocess_appstore_store_frame)
    with same assms(2) a show "map_of (h1 a) = map_of (?h (p a))" by simp
  qed
  from formate_appstore_reviews_store_cong [OF assms(1) this, of strptime]
  show "snd (formate_appstore_reviews_store strptime ?h (map p batch))
              = snd (formate_appstore_reviews_store strptime h1 batch)"
    by simp
next
  assume "distinct batch"
  from preprocess_appstore_store_distinct [OF this, of strptime h1]
  show "formate_appstore_reviews strptime (map h1 batch)
              = (map (fst (formate_appstore_reviews_store strptime h1 batch)) batch,
                 snd (formate_appstore_reviews_store strptime h1 batch))"
    by (cases "preprocess_appstore_store strptime h1 batch")
       (auto simp: formate_appstore_reviews_def formate_appstore_reviews_store_def
        split: option.splits)
qed

theorem formatting_deterministic_witness:
  "snd (formate_appstore_reviews_store sample_strptime
          (\<lambda>a. if a = 0 then appstore_sample
                else if a = 10 then appstore_sample_reordered else appstore_sample_replied)
          [10, 10, 14::nat])
     = Inr \<lparr>dtype = Unicode, shape = [4, 6],
          rows = [[PStr ''Datetime'', PStr ''Username'', PStr ''Review'', PStr ''Rating'',
                   PStr ''Reply'', PStr ''Reply Datetime''],
                  [PStr ''05/03/2023'', PStr ''bob'', PStr ''GreatGreat app'', PStr ''5'', PStr [],
                   PStr []],
                  [PStr ''05/03/2023'', PStr ''bob'', PStr ''GreatGreat app'', PStr ''5'', PStr [],
                   PStr []],
                  [PStr ''05/03/2023'', PStr ''bob'', PStr ''Great app'', PStr ''5'',
                   PStr ''thanks'', PStr ''06/03/2023'']]\<rparr>
   \<and> snd (formate_appstore_reviews_store sample_strptime
          (fst (formate_appstore_reviews_store sample_strptime
                  (\<lambda>a. if a = 0 then appstore_sample
                        else if a = 10 then appstore_sample_reordered
                        else appstore_sample_replied)
                  [0, 0, 4::nat]))
          [10, 10, 14::nat])
     = snd (formate_appstore_reviews_store sample_strptime
              (\<lambda>a. if a = 0 then appstore_sample
                    else if a = 10 then appstore_sample_reordered else appstore_sample_replied)
              [0, 0, 4::nat])
   \<and> snd (format_playstore_reviews [playstore_sample, playstore_sample, playstore_sample_replied])
     = snd (format_playstore_reviews
              (map (\<lambda>a. if a = 10 then playstore_sample else playstore_sample_replied)
                 [10, 10, 14::nat]))
   \<and> formate_appstore_reviews sample_strptime [appstore_sample, appstore_sample_replied]
     = (map (fst (formate_appstore_reviews_store sample_strptime
                    (\<lambda>a. if a = 0 then appstore_sample else appstore_sample_replied)
                    [0, 4::nat]))
          [0, 4::nat],
        snd (formate_appstore_reviews_store sample_strptime
               (\<lambda>a. if a = 0 then appstore_sample else appstore_sample_replied) [0, 4::nat]))"
  using formatting_deterministic [where p = "\<lambda>a. a + 10" and batch = "[0, 0, 4]"
      and strptime = sample_strptime
      and ?h1.0 = "\<lambda>a. if a = 0 then appstore_sample
                       else if a = 10 then appstore_sample_reordered else appstore_sample_replied"
      and ?h2.0 = "\<lambda>a. if a = 0 then appstore_sample
                       else if a = 10 then appstore_sample_reordered else appstore_sample_replied"]
    formatting_deterministic [where p = "\<lambda>a. a + 10" and batch = "[0, 0, 4]"
      and strptime = sample_strptime
      and ?h1.0 = "\<lambda>a. if a = 0 then playstore_sample else playstore_sample_replied"
      and ?h2.0 = "\<lambda>a. if a = 10 then playstore_sample else playstore_sample_replied"]
    formatting_deterministic [where p = "\<lambda>a. a" and batch = "[0, 4]"
      and strptime = sample_strptime
      and ?h1.0 = "\<lambda>a. if a = 0 then appstore_sample else appstore_sample_replied"
      and ?h2.0 = "\<lambda>a. if a = 0 then appstore_sample else appstore_sample_replied"]
  by (simp add: appstore_sample_reordered_fields appstore_store_run)

text \<open>
  C10: for the empty list of raw reviews each formatting function returns the table with
  one row, the header with the canonical column names in order (six for the App Store,
  seven for the Play Store), and no data row; the list of reviews stays empty.
\<close>

theorem empty_batch_header_only:
  "formate_appstore_reviews strptime [] =
     ([], Inr \<lparr>dtype = Unicode, shape = [1, 6],
               rows = [[PStr ''Datetime'', PStr ''Username'', PStr ''Review'', PStr ''Rating'',
                        PStr ''Reply'', PStr ''Reply Datetime'']]\<rparr>)
   \<and> format_playstore_reviews [] =
     ([], Inr \<lparr>dtype = Unicode, shape = [1, 7],
               rows = [[PStr ''Datetime'', PStr ''Username'', PStr ''Review'', PStr ''Rating'',
                        PStr ''Reply'', PStr ''Reply Datetime'', PStr ''Thumbs Up'']]\<rparr>)"
proof
  have "format_generic [] appstore_dataset_cols appstore_revs_cols
      = Inr \<lparr>dtype = Unicode, shape = [1, length appstore_dataset_cols],
             rows = [map (\<lambda>k. PStr (rstrip_nul k)) appstore_dataset_cols]\<rparr>"
    by (rule format_generic_empty) (simp_all add: appstore_dataset_cols_def appstore_revs_cols_def)
  then show "formate_appstore_reviews strptime [] =
     ([], Inr \<lparr>dtype = Unicode, shape = [1, 6],
               rows = [[PStr ''Datetime'', PStr ''Username'', PStr ''Review'', PStr ''Rating'',
                        PStr ''Reply'', PStr ''Reply Datetime'']]\<rparr>)"
    by (simp add: formate_appstore_reviews_def appstore_dataset_cols_def rstrip_nul_names)
  have "format_generic [] playstore_dataset_cols playstore_revs_cols
      = Inr \<lparr>dtype = Unicode, shape = [1, length playstore_dataset_cols],
             rows = [map (\<lambda>k. PStr (rstrip_nul k)) playstore_dataset_cols]\<rparr>"
    by (rule format_generic_empty) (simp_all add: playstore_dataset_cols_def playstore_revs_cols_def)
  then show "format_playstore_reviews [] =
     ([], Inr \<lparr>dtype = Unicode, shape = [1, 7],
               rows = [[PStr ''Datetime'', PStr ''Username'', PStr ''Review'', PStr ''Rating'',
                        PStr ''Reply'', PStr ''Reply Datetime'', PStr ''Thumbs Up'']]\<rparr>)"
    by (simp add: format_playstore_reviews_def playstore_dataset_cols_def rstrip_nul_names)
qed


section \<open>Results: the request handler\<close>

text \<open>
  C1: when the trigger is a real submission (not both counters equal to 0, in which case
  the handler raises \<open>PreventUpdate\<close> before it looks at the URL), the handler does,
  for every URL, what the App Store branch does if the URL contains \<open>apps.apple.com\<close>,
  else what the Play Store branch does if it contains \<open>play.google.com\<close>, and else
  raises \<open>ValueError\<close> with the message
  \<open>Invalid url. Make sure to use a Playstore or Appstore url.\<close>
  Neither branch raises that error (the messages of \<^verbatim>\<open>strptime\<close> being others), so
  the handler raises it exactly for the URLs that contain neither marker.
\<close>

theorem start_review_scraping_dispatch:
  assumes "\<not> (n_clicks = Some 0 \<and> n_submits = Some 0)"
  shows "(start_review_scraping strptime service reviews w n_clicks n_submits url :: py_error + 'd) =
           (if sublist ''apps.apple.com'' url then appstore_path strptime service url
            else if sublist ''play.google.com'' url then playstore_path reviews w url
            else Inl (ValueError ''Invalid url. Make sure to use a Playstore or Appstore url.''))
       \<and> ((\<forall>s f. strptime s f \<noteq> Inl ''Invalid url. Make sure to use a Playstore or Appstore url.'')
            \<longrightarrow>
            ((start_review_scraping strptime service reviews w n_clicks n_submits url :: py_error + 'd)
               = Inl (ValueError ''Invalid url. Make sure to use a Playstore or Appstore url.'')
             \<longleftrightarrow> \<not> sublist ''apps.apple.com'' url \<and> \<not> sublist ''play.google.com'' url))"
proof (intro conjI impI)
  show eq: "(start_review_scraping strptime service reviews w n_clicks n_submits url :: py_error + 'd) =
           (if sublist ''apps.apple.com'' url then appstore_path strptime service url
            else if sublist ''play.google.com'' url then playstore_path reviews w url
            else Inl (ValueError ''Invalid url. Make sure to use a Playstore or Appstore url.''))"
  proof -
    from assms have g: "(n_clicks = Some 0 \<and> n_submits = Some 0) = False" by blast
    show ?thesis unfolding start_review_scraping_def g if_False ..
  qed
  assume msg: "\<forall>s f. strptime s f \<noteq> Inl ''Invalid url. Make sure to use a Playstore or Appstore url.''"
  have app: "(appstore_path strptime service url :: py_error + 'd)
      \<noteq> Inl (ValueError ''Invalid url. Make sure to use a Playstore or Appstore url.'')"
  proof
    assume "(appstore_path strptime service url :: py_error + 'd)
      = Inl (ValueError ''Invalid url. Make sure to use a Playstore or Appstore url.'')"
    from appstore_path_error [OF this] msg show False by auto
  qed
  have play: "(playstore_path reviews w url :: py_error + 'd)
      \<noteq> Inl (ValueError ''Invalid url. Make sure to use a Playstore or Appstore url.'')"
  proof
    assume "(playstore_path reviews w url :: py_error + 'd)
      = Inl (ValueError ''Invalid url. Make sure to use a Playstore or Appstore url.'')"
    from playstore_path_error [OF this] show False by auto
  qed
  show "(start_review_scraping strptime service reviews w n_clicks n_submits url :: py_error + 'd)
               = Inl (ValueError ''Invalid url. Make sure to use a Playstore or Appstore url.'')
             \<longleftrightarrow> \<not> sublist ''apps.apple.com'' url \<and> \<not> sublist ''play.google.com'' url"
    unfolding eq using app play by auto
qed

theorem start_review_scraping_dispatch_witness:
  "start_review_scraping sample_strptime no_reviews_service no_pages_service () (Some 1) (Some 0)
       ''https://apps.apple.com/it/app/enel-x-way/id1377291789''
     = (Inl (AttributeError ''to_csv'') :: py_error + unit)
   \<and> start_review_scraping sample_strptime no_reviews_service no_pages_service () (Some 1) (Some 0)
       ''https://play.google.com/store/apps/details?id=com.enel.mobile.recharge2&hl=it&gl=US''
     = (Inl (AttributeError ''to_csv'') :: py_error + unit)
   \<and> start_review_scraping sample_strptime no_reviews_service no_pages_service () (Some 1) (Some 0)
       ''https://example.com/app''
     = (Inl (ValueError ''Invalid url. Make sure to use a Playstore or Appstore url.'')
          :: py_error + unit)
   \<and> sublist ''apps.apple.com'' ''https://apps.apple.com/it/app/enel-x-way/id1377291789''
   \<and> \<not> sublist ''apps.apple.com''
       ''https://play.google.com/store/apps/details?id=com.enel.mobile.recharge2&hl=it&gl=US''
   \<and> sublist ''play.google.com''
       ''https://play.google.com/store/apps/details?id=com.enel.mobile.recharge2&hl=it&gl=US''
   \<and> \<not> sublist ''apps.apple.com'' ''https://example.com/app''
   \<and> \<not> sublist ''play.google.com'' ''https://example.com/app''"
  using start_review_scraping_dispatch [where ?'d = unit, of "Some 1" "Some 0" sample_strptime no_reviews_service
      no_pages_service "()" "''https://apps.apple.com/it/app/enel-x-way/id1377291789''"]
    start_review_scraping_dispatch [where ?'d = unit, of "Some 1" "Some 0" sample_strptime no_reviews_service
      no_pages_service "()"
      "''https://play.google.com/store/apps/details?id=com.enel.mobile.recharge2&hl=it&gl=US''"]
    start_review_scraping_dispatch [where ?'d = unit, of "Some 1" "Some 0" sample_strptime no_reviews_service
      no_pages_service "()" "''https://example.com/app''"]
  by (simp add: markers appstore_path_no_reviews playstore_path_no_pages)

end
